(* ===== verification/Prelude.thy ===== *)
theory Prelude
  imports Main "HOL-Library.Word" "HOL-Library.Sublist"
begin

text \<open>
  What every component shares. A \<open>std::string\<close>, a \<open>std::string_view\<close> and a
  \<open>std::array<unsigned char, N>\<close> are lists of 8-bit words; \<open>size_t\<close> lengths are natural
  numbers and are narrowed explicitly where the code narrows them (\<open>uint32_t\<close>, \<open>int\<close>).
  An operation that may throw returns \<open>error + 'a\<close>; one that also draws random bytes
  threads the generator's state. Two constructors of \<open>error\<close> are not exceptions:
  \<open>Aborted\<close> (\<open>abort()\<close> or a failed \<open>assert\<close>) and \<open>Undefined\<close> (the C++ code has no defined
  result here: an access outside the object it was given, or a violated library precondition);
  \<open>catch (...)\<close> stops neither.
\<close>

unbundle bit_operations_syntax

subsection \<open>Bytes and errors\<close>

type_synonym byte = "8 word"
type_synonym bytes = "byte list"

definition str :: "string \<Rightarrow> bytes" where
  "str s = map of_char s"

datatype error =
    Runtime_Error bytes
  | Invalid_Argument bytes
  | Range_Error bytes
  | Json_Error
  | Address_Error
  | Future_Error
  | Aborted
  | Undefined string

type_synonym 'a result = "error + 'a"

fun catchable :: "error \<Rightarrow> bool" where
  "catchable Aborted = False"
| "catchable (Undefined w) = False"
| "catchable e = True"

text \<open>A result that is neither an abort nor undefined behaviour.\<close>

fun is_defined :: "'a result \<Rightarrow> bool" where
  "is_defined (Inl e) = catchable e"
| "is_defined (Inr x) = True"

named_theorems result_simps \<open>equations of the error combinators\<close>

subsection \<open>Sequencing fallible operations\<close>

definition ebind :: "'a result \<Rightarrow> ('a \<Rightarrow> 'b result) \<Rightarrow> 'b result" where
  "ebind m f = (case m of Inl e \<Rightarrow> Inl e | Inr x \<Rightarrow> f x)"

lemma ebind_simps [simp, result_simps]:
  "ebind (Inl e) f = Inl e"
  "ebind (Inr x) f = f x"
  by (simp_all add: ebind_def)

lemma ebind_eq_Inr [result_simps]:
  "ebind m f = Inr y \<longleftrightarrow> (\<exists>x. m = Inr x \<and> f x = Inr y)"
  by (cases m) auto

lemma ebind_defined:
  assumes "is_defined m" and "\<And>x. m = Inr x \<Longrightarrow> is_defined (f x)"
  shows "is_defined (ebind m f)"
  using assms by (cases m) auto

lemma is_defined_if [simp]:
  "is_defined (if b then m else n) = (if b then is_defined m else is_defined n)"
  by simp

text \<open>\<open>require b e\<close> is the guard \<open>if (!b) throw e;\<close>.\<close>

definition require :: "bool \<Rightarrow> error \<Rightarrow> unit result" where
  "require b e = (if b then Inr () else Inl e)"

lemma require_simps [simp, result_simps]:
  "require True e = Inr ()"
  "require False e = Inl e"
  by (simp_all add: require_def)

lemma require_eq_Inr [simp]: "require b e = Inr u \<longleftrightarrow> b"
  by (simp add: require_def)

lemma require_defined [simp]: "is_defined (require b e) \<longleftrightarrow> b \<or> catchable e"
  by (simp add: require_def)

text \<open>A library call that reports failure by its return code, and the exception thrown then.\<close>

definition or_throw :: "'a option \<Rightarrow> error \<Rightarrow> 'a result" where
  "or_throw m e = (case m of None \<Rightarrow> Inl e | Some x \<Rightarrow> Inr x)"

lemma or_throw_simps [simp, result_simps]:
  "or_throw None e = Inl e"
  "or_throw (Some x) e = Inr x"
  by (simp_all add: or_throw_def)

lemma or_throw_eq_Inr [simp]: "or_throw m e = Inr x \<longleftrightarrow> m = Some x"
  by (cases m) auto

lemma or_throw_defined [simp]: "is_defined (or_throw m e) \<longleftrightarrow> m \<noteq> None \<or> catchable e"
  by (cases m) auto

text \<open>\<open>try { return Some(m) } catch (...) {} return nullopt\<close>.\<close>

definition catch_all :: "'a result \<Rightarrow> 'a option result" where
  "catch_all m = (case m of
      Inr x \<Rightarrow> Inr (Some x)
    | Inl e \<Rightarrow> (if catchable e then Inr None else Inl e))"

lemma catch_all_simps [simp, result_simps]:
  "catch_all (Inr x) = Inr (Some x)"
  "catchable e \<Longrightarrow> catch_all (Inl e) = Inr None"
  "\<not> catchable e \<Longrightarrow> catch_all (Inl e) = Inl e"
  by (simp_all add: catch_all_def)

lemma catch_all_cases:
  "is_defined m \<Longrightarrow> catch_all m = Inr (case m of Inl e \<Rightarrow> None | Inr x \<Rightarrow> Some x)"
  by (cases m) auto

lemma catch_all_eq_Some: "catch_all m = Inr (Some x) \<longleftrightarrow> m = Inr x"
  by (cases m) (auto simp: catch_all_def)

subsection \<open>Operations that also draw from the random number generator\<close>

type_synonym ('r, 'a) eff = "'r \<Rightarrow> 'a result \<times> 'r"

definition sbind :: "('r, 'a) eff \<Rightarrow> ('a \<Rightarrow> ('r, 'b) eff) \<Rightarrow> ('r, 'b) eff" where
  "sbind m f r = (case m r of (Inl e, r') \<Rightarrow> (Inl e, r') | (Inr x, r') \<Rightarrow> f x r')"

definition lift :: "'a result \<Rightarrow> ('r, 'a) eff" where
  "lift m r = (m, r)"

lemma sbind_Inl [simp]: "m r = (Inl e, r') \<Longrightarrow> sbind m f r = (Inl e, r')"
  by (simp add: sbind_def)

lemma sbind_Inr [simp]: "m r = (Inr x, r') \<Longrightarrow> sbind m f r = f x r'"
  by (simp add: sbind_def)

lemma sbind_lift [simp]:
  "sbind (lift (Inr x)) f r = f x r"
  "sbind (lift (Inl e)) f r = (Inl e, r)"
  by (simp_all add: sbind_def lift_def)

text \<open>The laws of sequencing.\<close>

lemma sbind_assoc: "sbind (sbind m f) g = sbind m (\<lambda>x. sbind (f x) g)"
  by (rule ext) (simp add: sbind_def split: prod.split sum.split)

lemma sbind_lift_Inr: "sbind (lift (Inr x)) f = f x"
  by (rule ext) simp

lemma sbind_return: "sbind m (\<lambda>x. lift (Inr x)) = m"
  by (rule ext) (simp add: sbind_def lift_def split: prod.split sum.split)

lemma ebind_assoc: "ebind (ebind m f) g = ebind m (\<lambda>x. ebind (f x) g)"
  by (cases m) simp_all

lemma lift_apply: "lift m r = (m, r)"
  by (simp add: lift_def)

lemma sbind_eq_Inr:
  "sbind m f r = (Inr y, r'') \<longleftrightarrow> (\<exists>x r'. m r = (Inr x, r') \<and> f x r' = (Inr y, r''))"
  by (auto simp: sbind_def split: prod.splits sum.splits)

subsection \<open>Buffers\<close>

text \<open>
  A write through a pointer at an offset of a buffer; past its end it is undefined. \<open>resize\<close> is
  \<open>std::string::resize\<close>.
\<close>

definition write_at :: "bytes \<Rightarrow> nat \<Rightarrow> bytes \<Rightarrow> bytes result" where
  "write_at buf off d =
     (if off + length d \<le> length buf
      then Inr (take off buf @ d @ drop (off + length d) buf)
      else Inl (Undefined ''write past the end of a buffer''))"

definition resize :: "nat \<Rightarrow> bytes \<Rightarrow> bytes" where
  "resize n buf = take n buf @ replicate (n - length buf) 0"

lemma write_at_ok:
  "off + length d \<le> length buf \<Longrightarrow>
   write_at buf off d = Inr (take off buf @ d @ drop (off + length d) buf)"
  by (simp add: write_at_def)

lemma write_at_full: "length d = length buf \<Longrightarrow> write_at buf 0 d = Inr d"
  by (simp add: write_at_def)

lemma write_at_length: "write_at buf off d = Inr buf' \<Longrightarrow> length buf' = length buf"
  by (auto simp: write_at_def split: if_splits)

lemma write_at_defined [simp]:
  "is_defined (write_at buf off d) \<longleftrightarrow> off + length d \<le> length buf"
  by (simp add: write_at_def)

text \<open>Writing behind a prefix that is already filled extends the prefix.\<close>

lemma write_at_prefix:
  assumes "length pre = off" and "length d \<le> n"
  shows "write_at (pre @ replicate n 0) off d = Inr ((pre @ d) @ replicate (n - length d) 0)"
  using assms by (simp add: write_at_def)

lemmas write_at_start = write_at_prefix [where pre = "[]" and off = 0, simplified]

lemma resize_prefix: "length pre = n \<Longrightarrow> resize n (pre @ rest) = pre"
  by (auto simp: resize_def)

lemma resize_prefix2: "resize (length x + length y) (x @ y @ rest) = x @ y"
  by (simp add: resize_def)

text \<open>A byte string that is long enough has a prefix, a middle and a suffix of given lengths.\<close>

lemma three_parts:
  assumes "a + t \<le> length s"
  obtains x y z where "s = x @ y @ z" "length x = a" "length z = t"
proof
  let ?n = "length s - a - t"
  show "s = take a s @ take ?n (drop a s) @ drop ?n (drop a s)"
    by (simp only: append_take_drop_id)
  show "length (take a s) = a" "length (drop ?n (drop a s)) = t" using assms by simp_all
qed

lemma length_resize [simp]: "length (resize n buf) = n"
  by (simp add: resize_def)

subsection \<open>Machine integers\<close>

text \<open>
  \<open>size_t\<close> narrowed to \<open>uint32_t\<close> (modulo \<open>2\<^sup>3\<^sup>2\<close>) and to a 32-bit \<open>int\<close> (two's
  complement), as the implicit conversions of the code do.
\<close>

definition narrow_u32 :: "nat \<Rightarrow> 32 word" where
  "narrow_u32 n = word_of_nat n"

definition narrow_int :: "nat \<Rightarrow> int" where
  "narrow_int n = sint (word_of_nat n :: 32 word)"

lemma unat_narrow_u32: "unat (narrow_u32 n) = n mod 2 ^ 32"
  by (simp add: narrow_u32_def unat_of_nat)

lemma unat_narrow_u32_small [simp]: "n < 2 ^ 32 \<Longrightarrow> unat (narrow_u32 n) = n"
  by (simp add: unat_narrow_u32)

lemma narrow_int_small [simp]:
  assumes "n < 2 ^ 31"
  shows "narrow_int n = int n"
proof -
  have "sint (word_of_nat n :: 32 word) = signed_take_bit 31 (int n)"
    by (simp add: signed_of_nat)
  also have "\<dots> = int n"
    using assms by (intro signed_take_bit_int_eq_self) auto
  finally show ?thesis by (simp add: narrow_int_def)
qed

text \<open>Little-endian bytes of a 32-bit word: the wire format of the length prefixes.\<close>

definition le_bytes32 :: "32 word \<Rightarrow> bytes" where
  "le_bytes32 w = map (\<lambda>i. ucast (drop_bit (8 * i) w)) [0, 1, 2, 3]"

definition le_word32 :: "bytes \<Rightarrow> 32 word" where
  "le_word32 bs = ucast (bs ! 0) OR push_bit 8 (ucast (bs ! 1))
     OR push_bit 16 (ucast (bs ! 2)) OR push_bit 24 (ucast (bs ! 3))"

definition le_word64 :: "bytes \<Rightarrow> 64 word" where
  "le_word64 bs = foldr (\<lambda>b acc. ucast b OR push_bit 8 acc) (take 8 bs) 0"

lemma length_le_bytes32 [simp]: "length (le_bytes32 w) = 4"
  by (simp add: le_bytes32_def)

lemma le_word32_bytes: "le_word32 (le_bytes32 w @ rest) = w"
proof (rule bit_word_eqI)
  fix n assume "n < LENGTH(32)"
  then have n: "n < 32" by simp
  then consider "n < 8" | "8 \<le> n" "n < 16" | "16 \<le> n" "n < 24" | "24 \<le> n" "n < 32"
    by linarith
  then show "bit (le_word32 (le_bytes32 w @ rest)) n = bit w n"
    by cases (auto simp: le_word32_def le_bytes32_def bit_simps)
qed

subsection \<open>Decimal numbers\<close>

text \<open>\<open>std::to_string\<close> of an unsigned number.\<close>

fun std_to_string :: "nat \<Rightarrow> bytes" where
  "std_to_string n =
     (if n < 10 then [48 + word_of_nat n]
      else std_to_string (n div 10) @ [48 + word_of_nat (n mod 10)])"

declare std_to_string.simps [simp del]

definition digit_value :: "byte \<Rightarrow> nat" where
  "digit_value b = unat (b - 48)"

definition decimal_value :: "bytes \<Rightarrow> nat" where
  "decimal_value bs = foldl (\<lambda>acc b. 10 * acc + digit_value b) 0 bs"

lemma digit_value_digit: "n < 10 \<Longrightarrow> digit_value (48 + word_of_nat n) = n"
  by (simp add: digit_value_def unat_of_nat)

lemma decimal_value_to_string: "decimal_value (std_to_string n) = n"
proof (induction n rule: std_to_string.induct)
  case (1 n)
  show ?case
  proof (cases "n < 10")
    case True
    then show ?thesis
      by (simp add: std_to_string.simps [of n] decimal_value_def digit_value_digit)
  next
    case False
    with 1 have "decimal_value (std_to_string (n div 10)) = n div 10" by simp
    with False show ?thesis
      by (simp add: std_to_string.simps [of n] decimal_value_def digit_value_digit)
  qed
qed

lemma std_to_string_inject: "std_to_string m = std_to_string n \<longleftrightarrow> m = n"
  by (metis decimal_value_to_string)

text \<open>The decimal digits are below 58, so a character such as \<open>/\<close> or \<open>:\<close> ends them.\<close>

lemma std_to_string_digits: "b \<in> set (std_to_string n) \<Longrightarrow> 48 \<le> unat b \<and> unat b < 58"
proof (induction n rule: std_to_string.induct)
  case (1 n)
  have digit: "k < 10 \<Longrightarrow> unat ((48::byte) + word_of_nat k) = 48 + k" for k
    by (simp add: unat_word_ariths unat_of_nat)
  show ?case
  proof (cases "n < 10")
    case True
    with "1.prems" show ?thesis by (simp add: std_to_string.simps [of n] digit)
  next
    case False
    with "1.prems" consider "b \<in> set (std_to_string (n div 10))" | "b = 48 + word_of_nat (n mod 10)"
      by (auto simp: std_to_string.simps [of n])
    then show ?thesis
      by cases (use False "1.IH" in \<open>simp_all add: digit\<close>)
  qed
qed

lemma std_to_string_nonempty [simp]: "std_to_string n \<noteq> []"
  by (simp add: std_to_string.simps [of n])

subsection \<open>Runs that end\<close>

text \<open>
  Each step brings one of finitely many threads nearer to its end and leaves the others where they
  are: then a run has no more steps than the threads had before them together.
\<close>

lemma bounded_steps:
  fixes f :: "'x \<Rightarrow> 'i \<Rightarrow> nat"
  assumes step: "\<And>x y. R x y \<Longrightarrow> P x \<Longrightarrow> P y \<and> (\<exists>i. f y i < f x i \<and> (\<forall>j. j \<noteq> i \<longrightarrow> f y j = f x j))"
    and "(R ^^ k) x y" and "P x" and "finite I" and "\<And>j. j \<notin> I \<Longrightarrow> f x j = 0"
  shows "P y \<and> k + (\<Sum>j \<in> I. f y j) \<le> (\<Sum>j \<in> I. f x j) \<and> (\<forall>j. j \<notin> I \<longrightarrow> f y j = 0)"
  using assms(2)
proof (induction k arbitrary: y)
  case 0
  then show ?case using assms(3,5) by simp
next
  case (Suc k)
  then obtain b where b: "(R ^^ k) x b" "R b y" by auto
  from Suc.IH [OF b(1)] have IH: "P b" "k + (\<Sum>j \<in> I. f b j) \<le> (\<Sum>j \<in> I. f x j)" "\<And>j. j \<notin> I \<Longrightarrow> f b j = 0"
    by auto
  obtain i where i: "P y" "f y i < f b i" "\<And>j. j \<noteq> i \<Longrightarrow> f y j = f b j"
    using step [OF b(2) IH(1)] by blast
  have "i \<in> I" using i(2) IH(3) by (metis less_nat_zero_code)
  then have "(\<Sum>j \<in> I. f y j) < (\<Sum>j \<in> I. f b j)"
    using i(2,3) by (intro sum_strict_mono_ex1 [OF assms(4)]) (metis le_refl less_imp_le, blast)
  moreover have "\<forall>j. j \<notin> I \<longrightarrow> f y j = 0" using \<open>i \<in> I\<close> i(3) IH(3) by metis
  ultimately show ?case using i(1) IH(2) by auto
qed

end
