(* ===== verification/Libs.thy ===== *)
theory Libs
  imports Prelude
begin

text \<open>
  The libraries the code calls and whose source is not part of the repository: oxenc, libsodium,
  OpenSSL's EVP interface, and nlohmann::json. Each is a record of functions, an argument of every
  definition that uses it; nothing is assumed about a record unless a statement says so with one
  of the contracts below, which state what the library's documentation promises. A failing return
  code is \<open>None\<close> (or \<open>False\<close>), a throwing call is \<open>None\<close>. A multi-part computation (hash,
  cipher context) is a function of the sequence of calls made so far.
\<close>

subsection \<open>oxenc: hex, base64, base32z, byte order\<close>

record oxenc =
  ox_is_hex :: "bytes \<Rightarrow> bool"
  ox_from_hex_size :: "nat \<Rightarrow> nat"
  ox_to_hex_size :: "nat \<Rightarrow> nat"
  ox_to_hex :: "bytes \<Rightarrow> bytes"
  ox_from_hex :: "bytes \<Rightarrow> bytes"
  ox_is_base64 :: "bytes \<Rightarrow> bool"
  ox_from_base64 :: "bytes \<Rightarrow> bytes"
  ox_is_base32z :: "bytes \<Rightarrow> bool"
  ox_to_base32z :: "bytes \<Rightarrow> bytes"
  ox_from_base32z :: "bytes \<Rightarrow> bytes"
  ox_write_le32 :: "32 word \<Rightarrow> bytes"
  ox_load_le32 :: "bytes \<Rightarrow> 32 word"

definition ascii :: "bytes \<Rightarrow> bool" where
  "ascii s \<longleftrightarrow> list_all (\<lambda>b. b < 128) s"

text \<open>base64 text without its padding: at most two trailing \<open>=\<close> signs.\<close>

definition b64_unpadded_length :: "bytes \<Rightarrow> nat" where
  "b64_unpadded_length s =
     (let n = length s; pad = length (takeWhile (\<lambda>b. b = 61) (rev s)) in n - min 2 pad)"

definition hex_ok :: "oxenc \<Rightarrow> bool" where
  "hex_ok X \<longleftrightarrow>
     (\<forall>n. ox_from_hex_size X n = n div 2 \<and> ox_to_hex_size X n = 2 * n) \<and>
     (\<forall>b. ox_is_hex X (ox_to_hex X b) \<and> ox_from_hex X (ox_to_hex X b) = b \<and>
          length (ox_to_hex X b) = 2 * length b \<and> ascii (ox_to_hex X b)) \<and>
     (\<forall>s. ox_is_hex X s \<longrightarrow> length s = 2 * length (ox_from_hex X s))"

definition base64_ok :: "oxenc \<Rightarrow> bool" where
  "base64_ok X \<longleftrightarrow>
     (\<forall>s. ox_is_base64 X s \<longrightarrow> length (ox_from_base64 X s) = 3 * b64_unpadded_length s div 4)"

definition base32z_ok :: "oxenc \<Rightarrow> bool" where
  "base32z_ok X \<longleftrightarrow>
     (\<forall>s. ox_is_base32z X s \<longrightarrow> length (ox_from_base32z X s) = 5 * length s div 8) \<and>
     (\<forall>b. ox_is_base32z X (ox_to_base32z X b) \<and>
          length (ox_to_base32z X b) = (8 * length b + 4) div 5 \<and>
          ox_from_base32z X (ox_to_base32z X b) = b)"

definition endian_ok :: "oxenc \<Rightarrow> bool" where
  "endian_ok X \<longleftrightarrow>
     (\<forall>w. ox_write_le32 X w = le_bytes32 w) \<and>
     (\<forall>bs. 4 \<le> length bs \<longrightarrow> ox_load_le32 X bs = le_word32 bs)"

subsection \<open>libsodium\<close>

text \<open>
  \<open>'r\<close> is the state of the system's random number generator. \<open>na_box_keypair\<close> yields the
  public and the secret key. The hashes take the list of the chunks passed to their update calls.
\<close>

record 'r sodium =
  na_randombytes :: "nat \<Rightarrow> 'r \<Rightarrow> bytes \<times> 'r"
  na_box_keypair :: "'r \<Rightarrow> (bytes \<times> bytes) \<times> 'r"
  na_scalarmult :: "bytes \<Rightarrow> bytes \<Rightarrow> bytes option"
  na_scalarmult_base :: "bytes \<Rightarrow> bytes"
  na_hmacsha256 :: "bytes \<Rightarrow> bytes list \<Rightarrow> bytes"
  na_generichash :: "nat \<Rightarrow> bytes \<Rightarrow> bytes list \<Rightarrow> bytes"
  na_xchacha_encrypt :: "bytes \<Rightarrow> bytes \<Rightarrow> bytes \<Rightarrow> bytes"
  na_xchacha_decrypt :: "bytes \<Rightarrow> bytes \<Rightarrow> bytes \<Rightarrow> bytes option"

definition random_ok :: "'r sodium \<Rightarrow> bool" where
  "random_ok N \<longleftrightarrow>
     (\<forall>n r. length (fst (na_randombytes N n r)) = n) \<and>
     (\<forall>r pk sk r'. na_box_keypair N r = ((pk, sk), r') \<longrightarrow>
        length sk = 32 \<and> pk = na_scalarmult_base N sk)"

text \<open>
  X25519: both sides of an exchange compute the same point, which an honestly generated public key
  never makes the neutral element; the all-zero public key is refused.
\<close>

definition dh_ok :: "'r sodium \<Rightarrow> bool" where
  "dh_ok N \<longleftrightarrow>
     (\<forall>b. length b = 32 \<longrightarrow> length (na_scalarmult_base N b) = 32) \<and>
     (\<forall>a p q. na_scalarmult N a p = Some q \<longrightarrow> length q = 32) \<and>
     (\<forall>a b. length a = 32 \<longrightarrow> length b = 32 \<longrightarrow>
        na_scalarmult N a (na_scalarmult_base N b) \<noteq> None \<and>
        na_scalarmult N a (na_scalarmult_base N b) = na_scalarmult N b (na_scalarmult_base N a)) \<and>
     (\<forall>a. na_scalarmult N a (replicate 32 0) = None)"

definition hash_ok :: "'r sodium \<Rightarrow> bool" where
  "hash_ok N \<longleftrightarrow>
     (\<forall>k cs. length (na_hmacsha256 N k cs) = 32) \<and>
     (\<forall>n k cs. length (na_generichash N n k cs) = n)"

text \<open>XChaCha20-Poly1305 adds a 16-byte tag.\<close>

definition aead_ok :: "'r sodium \<Rightarrow> bool" where
  "aead_ok N \<longleftrightarrow>
     (\<forall>k n m. length (na_xchacha_encrypt N k n m) = length m + 16) \<and>
     (\<forall>k n m. na_xchacha_decrypt N k n (na_xchacha_encrypt N k n m) = Some m) \<and>
     (\<forall>k n c m. na_xchacha_decrypt N k n c = Some m \<longrightarrow> length c = length m + 16)"

definition sodium_ok :: "'r sodium \<Rightarrow> bool" where
  "sodium_ok N \<longleftrightarrow> random_ok N \<and> dh_ok N \<and> hash_ok N \<and> aead_ok N"

subsection \<open>OpenSSL EVP\<close>

datatype evp_cipher = EVP_aes_256_cbc | EVP_aes_256_gcm

text \<open>
  Every call below is a function of the cipher, the key and the iv the context was initialised
  with, the input of the one update call (the bytes behind its pointer and its \<open>int\<close> length)
  and, for decryption, the tag set, if any.
\<close>

record openssl =
  evp_iv_length :: "evp_cipher \<Rightarrow> nat"
  evp_block_size :: "evp_cipher \<Rightarrow> nat"
  evp_encrypt_init :: "evp_cipher \<Rightarrow> bytes \<Rightarrow> bytes \<Rightarrow> bool"
  evp_encrypt_update :: "evp_cipher \<Rightarrow> bytes \<Rightarrow> bytes \<Rightarrow> bytes \<Rightarrow> int \<Rightarrow> bytes option"
  evp_encrypt_final :: "evp_cipher \<Rightarrow> bytes \<Rightarrow> bytes \<Rightarrow> bytes \<Rightarrow> int \<Rightarrow> bytes option"
  evp_get_tag :: "evp_cipher \<Rightarrow> bytes \<Rightarrow> bytes \<Rightarrow> bytes \<Rightarrow> int \<Rightarrow> nat \<Rightarrow> bytes option"
  evp_decrypt_init :: "evp_cipher \<Rightarrow> bytes \<Rightarrow> bytes \<Rightarrow> bool"
  evp_decrypt_update :: "evp_cipher \<Rightarrow> bytes \<Rightarrow> bytes \<Rightarrow> bytes \<Rightarrow> int \<Rightarrow> bytes option"
  evp_set_tag :: "evp_cipher \<Rightarrow> nat \<Rightarrow> bytes \<Rightarrow> bool"
  evp_decrypt_final ::
    "evp_cipher \<Rightarrow> bytes \<Rightarrow> bytes \<Rightarrow> bytes \<Rightarrow> int \<Rightarrow> bytes option \<Rightarrow> bytes option"

definition evp_sizes_ok :: "openssl \<Rightarrow> bool" where
  "evp_sizes_ok E \<longleftrightarrow>
     evp_iv_length E EVP_aes_256_cbc = 16 \<and> evp_block_size E EVP_aes_256_cbc = 16 \<and>
     evp_iv_length E EVP_aes_256_gcm = 12 \<and> evp_block_size E EVP_aes_256_gcm = 1"

text \<open>
  What update and final write together never exceeds the input by more than a block, for any
  input: the room the documentation asks the caller for.
\<close>

definition evp_decrypt_bounded :: "openssl \<Rightarrow> evp_cipher \<Rightarrow> bool" where
  "evp_decrypt_bounded E c \<longleftrightarrow>
     (\<forall>key iv ct u. evp_decrypt_update E c key iv ct (int (length ct)) = Some u \<longrightarrow>
        length u \<le> length ct + evp_block_size E c \<and>
        (\<forall>tag f. evp_decrypt_final E c key iv ct (int (length ct)) tag = Some f \<longrightarrow>
           length u + length f \<le> length ct + evp_block_size E c))"

text \<open>
  Encryption of an input that fits an \<open>int\<close> succeeds with a 32-byte key and an iv of the
  cipher's length, stays within input plus one block, and decryption of its output with the
  same key, iv and tag (none for \<open>taglen = 0\<close>) returns the input.
\<close>

definition evp_encrypts :: "openssl \<Rightarrow> evp_cipher \<Rightarrow> nat \<Rightarrow> bytes \<Rightarrow> bytes \<Rightarrow> bytes \<Rightarrow> bool" where
  "evp_encrypts E c taglen key iv m \<longleftrightarrow>
     evp_encrypt_init E c key iv \<and>
     (\<exists>u f tag u' f'.
        evp_encrypt_update E c key iv m (int (length m)) = Some u \<and>
        evp_encrypt_final E c key iv m (int (length m)) = Some f \<and>
        length u + length f \<le> length m + evp_block_size E c \<and>
        length tag = taglen \<and>
        (0 < taglen \<longrightarrow>
           evp_get_tag E c key iv m (int (length m)) taglen = Some tag \<and>
           evp_set_tag E c taglen tag) \<and>
        evp_decrypt_init E c key iv \<and>
        evp_decrypt_update E c key iv (u @ f) (int (length (u @ f))) = Some u' \<and>
        evp_decrypt_final E c key iv (u @ f) (int (length (u @ f)))
          (if taglen = 0 then None else Some tag) = Some f' \<and>
        m = u' @ f')"

definition evp_ok :: "openssl \<Rightarrow> evp_cipher \<Rightarrow> nat \<Rightarrow> bool" where
  "evp_ok E c taglen \<longleftrightarrow>
     evp_decrypt_bounded E c \<and>
     (\<forall>key iv m. length key = 32 \<longrightarrow> length iv = evp_iv_length E c \<longrightarrow>
        length m + evp_block_size E c < 2 ^ 31 \<longrightarrow> evp_encrypts E c taglen key iv m)"

definition openssl_ok :: "openssl \<Rightarrow> bool" where
  "openssl_ok E \<longleftrightarrow>
     evp_sizes_ok E \<and> evp_ok E EVP_aes_256_cbc 0 \<and> evp_ok E EVP_aes_256_gcm 16"

text \<open>
  Padded decryption without a single block fails at the latest in final: padding takes at least one.
  This is no part of \<open>openssl_ok\<close>; the one statement that needs it names it.
\<close>

definition evp_cbc_final_ok :: "openssl \<Rightarrow> bool" where
  "evp_cbc_final_ok E \<longleftrightarrow>
     (\<forall>key iv. evp_decrypt_final E EVP_aes_256_cbc key iv [] 0 None = None)"

subsection \<open>nlohmann::json\<close>

text \<open>
  \<open>'j\<close> is the type of json values. \<open>js_object\<close> is the value made from a brace list of
  key/value pairs, \<open>js_braces\<close> the value made from a nested empty brace list. \<open>js_find\<close> is
  \<open>None\<close> for \<open>end()\<close>; \<open>js_at\<close>, \<open>js_get_string\<close>, \<open>js_get_uint16\<close>, \<open>js_parse\<close> and
  \<open>js_dump\<close> (which refuses text that is not UTF-8) are \<open>None\<close> where they throw;
  \<open>js_elements\<close> is what a range-based \<open>for\<close> visits.
\<close>

record 'j json_lib =
  js_parse :: "bytes \<Rightarrow> 'j option"
  js_dump :: "'j \<Rightarrow> bytes option"
  js_object :: "(bytes \<times> 'j) list \<Rightarrow> 'j"
  js_string :: "bytes \<Rightarrow> 'j"
  js_bool :: "bool \<Rightarrow> 'j"
  js_uint16 :: "16 word \<Rightarrow> 'j"
  js_braces :: "'j"
  js_find :: "'j \<Rightarrow> bytes \<Rightarrow> 'j option"
  js_at :: "'j \<Rightarrow> bytes \<Rightarrow> 'j option"
  js_get_string :: "'j \<Rightarrow> bytes option"
  js_get_uint16 :: "'j \<Rightarrow> 16 word option"
  js_elements :: "'j \<Rightarrow> 'j list"

definition js_strings :: "'j json_lib \<Rightarrow> (bytes \<times> bytes) list \<Rightarrow> 'j" where
  "js_strings J kvs = js_object J (map (\<lambda>(k, s). (k, js_string J s)) kvs)"

text \<open>Bytes of the members of a flat object of strings.\<close>

definition members_size :: "(bytes \<times> bytes) list \<Rightarrow> nat" where
  "members_size kvs = sum_list (map (\<lambda>(k, s). length k + length s) kvs)"

text \<open>
  A flat object of ASCII strings under distinct keys is serialised (an escaped byte takes at most
  6), parses back to itself, and looks up its members.
\<close>

definition json_ok :: "'j json_lib \<Rightarrow> bool" where
  "json_ok J \<longleftrightarrow>
     (\<forall>kvs. distinct (map fst kvs) \<longrightarrow> list_all (\<lambda>(k, s). ascii k \<and> ascii s) kvs \<longrightarrow>
        (\<exists>d. js_dump J (js_strings J kvs) = Some d \<and>
             js_parse J d = Some (js_strings J kvs) \<and>
             length d \<le> 6 * members_size kvs + 8 * length kvs + 2)) \<and>
     (\<forall>kvs k. distinct (map fst kvs) \<longrightarrow>
        js_find J (js_strings J kvs) k = map_option (js_string J) (map_of kvs k)) \<and>
     (\<forall>s. js_get_string J (js_string J s) = Some s)"

text \<open>
  A member with a string found in a parsed text was written there: its key and its string, no
  shorter than they are (an escape takes more bytes than what it stands for), and seven bytes for
  the braces, the quotes and the colon, of which six are enough below. No part of \<open>json_ok\<close> either.
\<close>

definition json_text_ok :: "'j json_lib \<Rightarrow> bool" where
  "json_text_ok J \<longleftrightarrow>
     (\<forall>text j k v s. js_parse J text = Some j \<longrightarrow> js_find J j k = Some v \<longrightarrow>
        js_get_string J v = Some s \<longrightarrow> length k + length s + 6 \<le> length text)"

subsection \<open>The ed25519 group of libsodium\<close>

text \<open>
  Scalars and points are byte strings. The boolean is \<open>True\<close> for return code 0; the output is
  written in either case.
\<close>

record ed25519 =
  ed_base_noclamp :: "bytes \<Rightarrow> bool \<times> bytes"
  ed_base :: "bytes \<Rightarrow> bool \<times> bytes"
  ed_noclamp :: "bytes \<Rightarrow> bytes \<Rightarrow> bool \<times> bytes"
  ed_add :: "bytes \<Rightarrow> bytes \<Rightarrow> bool \<times> bytes"
  ed_is_valid_point :: "bytes \<Rightarrow> bool"
  ed_scalar_reduce :: "bytes \<Rightarrow> bytes"
  ed_scalar_mul :: "bytes \<Rightarrow> bytes \<Rightarrow> bytes"
  ed_scalar_add :: "bytes \<Rightarrow> bytes \<Rightarrow> bytes"
  ed_scalar_sub :: "bytes \<Rightarrow> bytes \<Rightarrow> bytes"
  ed_scalar_negate :: "bytes \<Rightarrow> bytes"
  ed_sk_to_pk :: "bytes \<Rightarrow> bytes"

subsection \<open>All of them together\<close>

record ('r, 'j) libs =
  lib_na :: "'r sodium"
  lib_evp :: openssl
  lib_ox :: oxenc
  lib_js :: "'j json_lib"

definition libs_ok :: "('r, 'j) libs \<Rightarrow> bool" where
  "libs_ok L \<longleftrightarrow>
     sodium_ok (lib_na L) \<and> openssl_ok (lib_evp L) \<and> json_ok (lib_js L) \<and>
     hex_ok (lib_ox L) \<and> base64_ok (lib_ox L) \<and> base32z_ok (lib_ox L) \<and> endian_ok (lib_ox L)"

end
