(* ===== verification/Reference_Libs.thy ===== *)
theory Reference_Libs
  imports Libs
begin

text \<open>
  One concrete instance of every library record, used by the witnesses to show that the contracts
  of theory Libs can hold together. The text encodings are the real ones (hex, base64 and
  base32z by bit regrouping, little-endian words); the cryptographic primitives are simple
  stand-ins with the right lengths and algebra, and json is a tagged binary form. No theorem
  about the program depends on this theory; only witnesses do.
\<close>

subsection \<open>Hex\<close>

definition hex_digit :: "nat \<Rightarrow> byte" where
  "hex_digit n = (if n < 10 then 48 + word_of_nat n else 87 + word_of_nat n)"

definition hex_value :: "byte \<Rightarrow> nat option" where
  "hex_value b =
     (let n = unat b in
      if 48 \<le> n \<and> n \<le> 57 then Some (n - 48)
      else if 97 \<le> n \<and> n \<le> 102 then Some (n - 87)
      else if 65 \<le> n \<and> n \<le> 70 then Some (n - 55)
      else None)"

definition ref_to_hex :: "bytes \<Rightarrow> bytes" where
  "ref_to_hex bs = concat (map (\<lambda>b. [hex_digit (unat b div 16), hex_digit (unat b mod 16)]) bs)"

definition ref_is_hex :: "bytes \<Rightarrow> bool" where
  "ref_is_hex s \<longleftrightarrow> even (length s) \<and> list_all (\<lambda>b. hex_value b \<noteq> None) s"

fun ref_from_hex :: "bytes \<Rightarrow> bytes" where
  "ref_from_hex (a # b # rest) =
     word_of_nat (16 * the (hex_value a) + the (hex_value b)) # ref_from_hex rest"
| "ref_from_hex s = []"

lemma unat_hex_digit: "n < 16 \<Longrightarrow> unat (hex_digit n) = (if n < 10 then 48 + n else 87 + n)"
  by (simp add: hex_digit_def unat_word_ariths unat_of_nat)

lemma hex_value_digit: "n < 16 \<Longrightarrow> hex_value (hex_digit n) = Some n"
  by (simp add: hex_value_def unat_hex_digit Let_def)

lemma hex_digit_ascii: "n < 16 \<Longrightarrow> hex_digit n < 128"
  by (simp add: word_less_nat_alt unat_hex_digit)

lemma unat_byte: "unat (b :: byte) < 256"
  using unsigned_less [where ?'b = 8 and ?'a = nat and w = b] by simp

lemma byte_nibbles [simp]: "unat (b :: byte) div 16 < 16"
  using unat_byte [of b] by simp

lemma ref_from_to_hex: "ref_from_hex (ref_to_hex bs) = bs"
  by (induction bs) (simp_all add: ref_to_hex_def hex_value_digit)

lemma ref_hex_ok:
  "ref_is_hex (ref_to_hex bs) \<and> length (ref_to_hex bs) = 2 * length bs \<and> ascii (ref_to_hex bs)"
  by (induction bs)
    (simp_all add: ref_to_hex_def ref_is_hex_def ascii_def hex_value_digit hex_digit_ascii)

lemma length_ref_from_hex: "even (length s) \<Longrightarrow> length s = 2 * length (ref_from_hex s)"
  by (induction s rule: ref_from_hex.induct) auto

subsection \<open>Regrouping bits\<close>

fun to_bits :: "nat \<Rightarrow> nat \<Rightarrow> bool list" where
  "to_bits 0 n = []"
| "to_bits (Suc k) n = to_bits k (n div 2) @ [odd n]"

definition of_bits :: "bool list \<Rightarrow> nat" where
  "of_bits bs = foldl (\<lambda>acc b. 2 * acc + of_bool b) 0 bs"

fun chunk :: "nat \<Rightarrow> 'a list \<Rightarrow> 'a list list" where
  "chunk k xs = (if k = 0 \<or> length xs < k then [] else take k xs # chunk k (drop k xs))"

declare chunk.simps [simp del]

lemma length_to_bits [simp]: "length (to_bits k n) = k"
  by (induction k n rule: to_bits.induct) simp_all

lemma of_bits_snoc: "of_bits (bs @ [b]) = 2 * of_bits bs + of_bool b"
  by (simp add: of_bits_def)

lemma of_bits_to_bits: "n < 2 ^ k \<Longrightarrow> of_bits (to_bits k n) = n"
proof (induction k arbitrary: n)
  case 0
  then show ?case by (simp add: of_bits_def)
next
  case (Suc k)
  then have "of_bits (to_bits k (n div 2)) = n div 2" by simp
  then show ?case by (simp add: of_bits_snoc)
qed

lemma to_bits_of_bits: "to_bits (length bs) (of_bits bs) = bs"
proof (induction bs rule: rev_induct)
  case Nil
  show ?case by simp
next
  case (snoc b bs)
  have "to_bits (Suc (length bs)) (of_bits (bs @ [b])) = to_bits (length bs) (of_bits bs) @ [b]"
    by (simp add: of_bits_snoc)
  then show ?case using snoc.IH by simp
qed

lemma of_bits_less: "of_bits bs < 2 ^ length bs"
proof (induction bs rule: rev_induct)
  case Nil
  show ?case by (simp add: of_bits_def)
next
  case (snoc b bs)
  then show ?case by (cases b) (simp_all add: of_bits_snoc)
qed

lemma length_chunk: "0 < k \<Longrightarrow> length (chunk k xs) = length xs div k"
proof (induction k xs rule: chunk.induct)
  case (1 k xs)
  then show ?case
    by (subst chunk.simps) (auto simp: le_div_geq not_less)
qed

lemma chunk_Cons: "0 < k \<Longrightarrow> length x = k \<Longrightarrow> chunk k (x @ xs) = x # chunk k xs"
  by (subst chunk.simps) simp

lemma chunk_short: "length xs < k \<Longrightarrow> chunk k xs = []"
  by (simp add: chunk.simps)

lemma chunk_concat:
  assumes "0 < k" and "\<And>x. x \<in> set xss \<Longrightarrow> length x = k" and "length tail < k"
  shows "chunk k (concat xss @ tail) = xss"
  using assms(2)
  by (induction xss) (simp_all add: chunk_short chunk_Cons assms(1,3))

lemma concat_chunk: "0 < k \<Longrightarrow> k dvd length xs \<Longrightarrow> concat (chunk k xs) = xs"
proof (induction k xs rule: chunk.induct)
  case (1 k xs)
  show ?case
  proof (cases "length xs < k")
    case True
    with "1.prems" have "xs = []" by (auto dest: dvd_imp_le)
    then show ?thesis using True by (simp add: chunk_short)
  next
    case False
    with 1 have "concat (chunk k (drop k xs)) = drop k xs" by simp
    with False "1.prems" show ?thesis by (subst chunk.simps) simp
  qed
qed

lemma set_chunk_length: "x \<in> set (chunk k xs) \<Longrightarrow> length x = k"
proof (induction k xs rule: chunk.induct)
  case (1 k xs)
  then show ?case by (subst (asm) (2) chunk.simps) (auto split: if_splits)
qed

subsection \<open>base32z and base64\<close>

definition byte_bits :: "bytes \<Rightarrow> bool list" where
  "byte_bits bs = concat (map (\<lambda>b. to_bits 8 (unat b)) bs)"

definition bits_bytes :: "bool list \<Rightarrow> bytes" where
  "bits_bytes bits = map (\<lambda>c. word_of_nat (of_bits c)) (chunk 8 bits)"

lemma length_byte_bits: "length (byte_bits bs) = 8 * length bs"
  by (induction bs) (simp_all add: byte_bits_def)

lemma length_bits_bytes: "length (bits_bytes bits) = length bits div 8"
  by (simp add: bits_bytes_def length_chunk)

lemma bits_bytes_inverse:
  assumes "length pad < 8"
  shows "bits_bytes (byte_bits bs @ pad) = bs"
proof -
  have "of_bits (to_bits 8 (unat b)) = unat b" for b :: byte
    using unat_byte [of b] by (intro of_bits_to_bits) simp
  moreover have "chunk 8 (byte_bits bs @ pad) = map (\<lambda>b. to_bits 8 (unat b)) bs"
    unfolding byte_bits_def using assms by (intro chunk_concat) auto
  ultimately show ?thesis by (simp add: bits_bytes_def comp_def)
qed

definition b32z_alphabet :: bytes where
  "b32z_alphabet = str ''ybndrfg8ejkmcpqxot1uwisza345h769''"

definition symbol_value :: "bytes \<Rightarrow> byte \<Rightarrow> nat" where
  "symbol_value alphabet b = length (takeWhile (\<lambda>c. c \<noteq> b) alphabet)"

lemma symbol_value_nth:
  assumes "distinct alphabet" and "i < length alphabet"
  shows "symbol_value alphabet (alphabet ! i) = i"
proof -
  have "takeWhile (\<lambda>c. c \<noteq> alphabet ! i) alphabet = take i alphabet"
    using assms by (intro takeWhile_eq_take_P_nth) (auto simp: nth_eq_iff_index_eq)
  then show ?thesis using assms by (simp add: symbol_value_def)
qed

definition pad_bits :: "nat \<Rightarrow> bool list \<Rightarrow> bool list" where
  "pad_bits k bits = bits @ replicate ((k - length bits mod k) mod k) False"

definition ref_to_base32z :: "bytes \<Rightarrow> bytes" where
  "ref_to_base32z bs = map (\<lambda>c. b32z_alphabet ! of_bits c) (chunk 5 (pad_bits 5 (byte_bits bs)))"

definition ref_is_base32z :: "bytes \<Rightarrow> bool" where
  "ref_is_base32z s \<longleftrightarrow> list_all (\<lambda>b. b \<in> set b32z_alphabet) s"

definition ref_from_base32z :: "bytes \<Rightarrow> bytes" where
  "ref_from_base32z s =
     bits_bytes (concat (map (\<lambda>b. to_bits 5 (symbol_value b32z_alphabet b)) s))"

lemma b32z_alphabet_facts: "distinct b32z_alphabet" "length b32z_alphabet = 32"
  by (simp_all add: b32z_alphabet_def str_def)

lemma of_bits_5: "length c = 5 \<Longrightarrow> of_bits c < 32"
  using of_bits_less [of c] by simp

lemma round_up_5:
  fixes n :: nat
  shows "n + (5 - n mod 5) mod 5 = 5 * ((n + 4) div 5)"
proof (cases "n mod 5 = 0")
  case True
  then obtain q where "n = 5 * q" by auto
  then show ?thesis by (simp add: div_nat_eqI)
next
  case False
  define q m where "q = n div 5" and "m = n mod 5"
  then have n: "n = 5 * q + m" and m: "0 < m" "m < 5" "n mod 5 = m"
    using False by simp_all
  have "(n + 4) div 5 = Suc q"
    using n m by (intro div_nat_eqI) simp_all
  then show ?thesis using n m by simp
qed

lemma length_pad_bits:
  "5 dvd length (pad_bits 5 bits)" "length (pad_bits 5 bits) div 5 = (length bits + 4) div 5"
  by (simp_all add: pad_bits_def round_up_5)

lemma ref_base32z_encode:
  "ref_is_base32z (ref_to_base32z bs)" "length (ref_to_base32z bs) = (8 * length bs + 4) div 5"
proof -
  have "of_bits c < length b32z_alphabet" if "c \<in> set (chunk 5 bits)" for c bits
    using of_bits_5 [OF set_chunk_length [OF that]] by (simp add: b32z_alphabet_facts)
  then show "ref_is_base32z (ref_to_base32z bs)"
    by (auto simp: ref_is_base32z_def ref_to_base32z_def list_all_iff)
  show "length (ref_to_base32z bs) = (8 * length bs + 4) div 5"
    by (simp add: ref_to_base32z_def length_chunk length_pad_bits length_byte_bits)
qed

lemma ref_from_to_base32z: "ref_from_base32z (ref_to_base32z bs) = bs"
proof -
  let ?bits = "pad_bits 5 (byte_bits bs)"
  have "to_bits 5 (symbol_value b32z_alphabet (b32z_alphabet ! of_bits c)) = c"
    if c: "c \<in> set (chunk 5 ?bits)" for c
    using to_bits_of_bits [of c] of_bits_5 [of c] set_chunk_length [OF c]
    by (simp add: symbol_value_nth b32z_alphabet_facts)
  then have "map (\<lambda>c. to_bits 5 (symbol_value b32z_alphabet (b32z_alphabet ! of_bits c))) (chunk 5 ?bits)
      = chunk 5 ?bits"
    by (simp add: map_idI)
  then have "ref_from_base32z (ref_to_base32z bs) = bits_bytes ?bits"
    by (simp add: ref_from_base32z_def ref_to_base32z_def comp_def concat_chunk length_pad_bits)
  also have "\<dots> = bs"
    unfolding pad_bits_def
    by (intro bits_bytes_inverse) (simp add: less_le_trans [OF mod_less_divisor])
  finally show ?thesis .
qed

definition b64_alphabet :: bytes where
  "b64_alphabet = str ''ABCDEFGHIJKLMNOPQRSTUVWXYZabcdefghijklmnopqrstuvwxyz0123456789+/''"

definition ref_is_base64 :: "bytes \<Rightarrow> bool" where
  "ref_is_base64 s \<longleftrightarrow>
     (let n = b64_unpadded_length s in
      (n = length s \<or> 4 dvd length s) \<and> list_all (\<lambda>b. b \<in> set b64_alphabet) (take n s))"

definition ref_from_base64 :: "bytes \<Rightarrow> bytes" where
  "ref_from_base64 s =
     bits_bytes (concat (map (\<lambda>b. to_bits 6 (symbol_value b64_alphabet b))
       (take (b64_unpadded_length s) s)))"

lemma length_concat_const:
  "(\<And>x. x \<in> set xs \<Longrightarrow> length (f x) = k) \<Longrightarrow> length (concat (map f xs)) = k * length xs"
  by (induction xs) simp_all

lemma length_ref_from_base64: "length (ref_from_base64 s) = 3 * b64_unpadded_length s div 4"
proof -
  have "b64_unpadded_length s \<le> length s"
    by (simp add: b64_unpadded_length_def Let_def)
  then have "length (ref_from_base64 s) = 6 * b64_unpadded_length s div 8"
    by (simp add: ref_from_base64_def length_bits_bytes length_concat_const)
  then show ?thesis by presburger
qed

lemma length_ref_from_base32z: "length (ref_from_base32z s) = 5 * length s div 8"
  by (simp add: ref_from_base32z_def length_bits_bytes length_concat_const)

definition ref_oxenc :: oxenc where
  "ref_oxenc =
     \<lparr>ox_is_hex = ref_is_hex, ox_from_hex_size = (\<lambda>n. n div 2), ox_to_hex_size = (\<lambda>n. 2 * n),
      ox_to_hex = ref_to_hex,
      ox_from_hex = ref_from_hex, ox_is_base64 = ref_is_base64, ox_from_base64 = ref_from_base64,
      ox_is_base32z = ref_is_base32z, ox_to_base32z = ref_to_base32z,
      ox_from_base32z = ref_from_base32z, ox_write_le32 = le_bytes32, ox_load_le32 = le_word32\<rparr>"

lemma ref_is_hex_even: "ref_is_hex s \<Longrightarrow> length s = 2 * length (ref_from_hex s)"
  by (simp add: ref_is_hex_def length_ref_from_hex)

lemma ref_oxenc_ok:
  "hex_ok ref_oxenc" "base64_ok ref_oxenc" "base32z_ok ref_oxenc" "endian_ok ref_oxenc"
  by (simp_all add: hex_ok_def base64_ok_def base32z_ok_def endian_ok_def ref_oxenc_def ref_hex_ok
      ref_from_to_hex ref_is_hex_even ref_base32z_encode
      ref_from_to_base32z length_ref_from_base64 length_ref_from_base32z)

subsection \<open>libsodium\<close>

text \<open>
  The generator is a counter. The toy group adds byte strings; setting the first byte makes a
  public key nonzero. A ciphertext is the plaintext followed by the first 16 bytes of the key.
\<close>

definition ref_public :: "bytes \<Rightarrow> bytes" where
  "ref_public b = 1 # tl b"

definition ref_scalarmult :: "bytes \<Rightarrow> bytes \<Rightarrow> bytes option" where
  "ref_scalarmult a p =
     (if length a = 32 \<and> length p = 32 \<and> p \<noteq> replicate 32 0
      then Some (map2 (+) (ref_public a) p) else None)"

definition key_tag :: "bytes \<Rightarrow> bytes" where
  "key_tag k = take 16 (k @ replicate 16 0)"

definition ref_unseal :: "bytes \<Rightarrow> bytes \<Rightarrow> bytes option" where
  "ref_unseal k c =
     (let n = length c - 16 in
      if 16 \<le> length c \<and> drop n c = key_tag k then Some (take n c) else None)"

definition ref_sodium :: "nat sodium" where
  "ref_sodium =
     \<lparr>na_randombytes = (\<lambda>n r. (replicate n (word_of_nat r), Suc r)),
      na_box_keypair = (\<lambda>r. let sk = replicate 32 (word_of_nat r) in ((ref_public sk, sk), Suc r)),
      na_scalarmult = ref_scalarmult,
      na_scalarmult_base = ref_public,
      na_hmacsha256 = (\<lambda>k cs. take 32 (concat cs @ replicate 32 0)),
      na_generichash = (\<lambda>n k cs. take n (concat cs @ replicate n 0)),
      na_xchacha_encrypt = (\<lambda>k n m. m @ key_tag k),
      na_xchacha_decrypt = (\<lambda>k n c. ref_unseal k c)\<rparr>"

lemma length_key_tag [simp]: "length (key_tag k) = 16"
  by (simp add: key_tag_def)

lemma ref_unseal_seal: "ref_unseal k (m @ key_tag k) = Some m"
  by (simp add: ref_unseal_def)

lemma ref_unseal_length: "ref_unseal k c = Some m \<Longrightarrow> length c = length m + 16"
  by (auto simp: ref_unseal_def Let_def split: if_splits)

lemma ref_scalarmult_public:
  assumes "length a = 32" and "length b = 32"
  shows "ref_scalarmult a (ref_public b) = Some (map2 (+) (ref_public a) (ref_public b))"
proof -
  have "ref_public b \<noteq> replicate 32 0"
    by (simp add: ref_public_def numeral_eq_Suc)
  with assms show ?thesis by (simp add: ref_scalarmult_def ref_public_def)
qed

lemma map2_add_commute: "map2 (+) xs ys = map2 (+) ys (xs :: bytes)"
  by (induction xs ys rule: list_induct2') (simp_all add: add.commute)

lemma ref_sodium_ok: "sodium_ok ref_sodium"
  unfolding sodium_ok_def
proof (intro conjI)
  show "random_ok ref_sodium"
    by (auto simp: random_ok_def ref_sodium_def Let_def)
  show "dh_ok ref_sodium"
    by (auto simp: dh_ok_def ref_sodium_def ref_scalarmult_public map2_add_commute)
      (auto simp: ref_scalarmult_def ref_public_def split: if_splits)
  show "hash_ok ref_sodium"
    by (auto simp: hash_ok_def ref_sodium_def min_def)
  show "aead_ok ref_sodium"
    by (auto simp: aead_ok_def ref_sodium_def ref_unseal_seal dest: ref_unseal_length)
qed

subsection \<open>OpenSSL\<close>

text \<open>
  The stand-in ciphers copy the data. GCM's tag is the key's; CBC emits full blocks from update
  and the padded rest from final, and decryption holds back the last block.
\<close>

definition cbc_padding :: "nat \<Rightarrow> bytes" where
  "cbc_padding n = (let p = 16 - n mod 16 in replicate p (word_of_nat p))"

definition cbc_unpad :: "bytes \<Rightarrow> bytes option" where
  "cbc_unpad ct =
     (let block = drop (length ct - 16) ct in
      if ct = [] \<or> length ct mod 16 \<noteq> 0 then None
      else Some (take (16 - unat (last block)) block))"

definition ref_input :: "bytes \<Rightarrow> int \<Rightarrow> bytes option" where
  "ref_input d n = (if n < 0 then None else Some (take (nat n) d))"

definition ref_openssl :: openssl where
  "ref_openssl =
     \<lparr>evp_iv_length = (\<lambda>c. case c of EVP_aes_256_cbc \<Rightarrow> 16 | EVP_aes_256_gcm \<Rightarrow> 12),
      evp_block_size = (\<lambda>c. case c of EVP_aes_256_cbc \<Rightarrow> 16 | EVP_aes_256_gcm \<Rightarrow> 1),
      evp_encrypt_init = (\<lambda>c k iv. True),
      evp_encrypt_update = (\<lambda>c k iv d n. map_option (\<lambda>m. case c of
          EVP_aes_256_gcm \<Rightarrow> m | EVP_aes_256_cbc \<Rightarrow> take (16 * (length m div 16)) m) (ref_input d n)),
      evp_encrypt_final = (\<lambda>c k iv d n. map_option (\<lambda>m. case c of
          EVP_aes_256_gcm \<Rightarrow> []
        | EVP_aes_256_cbc \<Rightarrow> drop (16 * (length m div 16)) m @ cbc_padding (length m)) (ref_input d n)),
      evp_get_tag = (\<lambda>c k iv d n t. if t = 16 then Some (key_tag k) else None),
      evp_decrypt_init = (\<lambda>c k iv. True),
      evp_decrypt_update = (\<lambda>c k iv d n. map_option (\<lambda>ct. case c of
          EVP_aes_256_gcm \<Rightarrow> ct | EVP_aes_256_cbc \<Rightarrow> take (length ct - 16) ct) (ref_input d n)),
      evp_set_tag = (\<lambda>c t tag. t = 16),
      evp_decrypt_final = (\<lambda>c k iv d n tag. Option.bind (ref_input d n) (\<lambda>ct. case c of
          EVP_aes_256_gcm \<Rightarrow> if tag = Some (key_tag k) then Some [] else None
        | EVP_aes_256_cbc \<Rightarrow> cbc_unpad ct))\<rparr>"

lemma ref_input_all [simp]: "ref_input d (int (length d)) = Some d"
  by (simp add: ref_input_def)

lemma cbc_unpad_bound: "cbc_unpad ct = Some f \<Longrightarrow> length f \<le> 16"
  by (auto simp: cbc_unpad_def Let_def split: if_splits)

lemma cbc_roundtrip:
  fixes m :: bytes
  defines "q \<equiv> 16 * (length m div 16)"
  defines "rest \<equiv> drop q m @ cbc_padding (length m)"
  shows "take (length (take q m @ rest) - 16) (take q m @ rest) = take q m"
    and "cbc_unpad (take q m @ rest) = Some (drop q m)"
    and "length (take q m) + length rest \<le> length m + 16"
proof -
  define p where "p = 16 - length m mod 16"
  have p: "0 < p" "p \<le> 16" "length m - q + p = 16" "q \<le> length m"
    by (simp_all add: p_def q_def minus_mult_div_eq_mod)
  have rest: "rest = drop q m @ replicate p (word_of_nat p)"
    by (simp add: rest_def cbc_padding_def p_def Let_def)
  have len: "length rest = 16" "length (take q m) = q" using p rest by simp_all
  have "rest \<noteq> []" using len by auto
  have last: "last rest = word_of_nat p" "unat (word_of_nat p :: byte) = p"
    using p rest by (simp_all add: unat_of_nat)
  show "take (length (take q m @ rest) - 16) (take q m @ rest) = take q m"
    using len by simp
  have "take (16 - p) rest = drop q m" using p rest by simp
  then show "cbc_unpad (take q m @ rest) = Some (drop q m)"
    using len last \<open>rest \<noteq> []\<close> by (simp add: cbc_unpad_def q_def flip: mod_eq_0_iff_dvd)
  show "length (take q m) + length rest \<le> length m + 16" using len p by simp
qed

lemma ref_evp_bounded: "evp_decrypt_bounded ref_openssl c"
  by (cases c) (auto simp: evp_decrypt_bounded_def ref_openssl_def split: if_splits
      dest: cbc_unpad_bound)

lemma ref_openssl_ok: "openssl_ok ref_openssl"
proof -
  have "evp_encrypts ref_openssl EVP_aes_256_gcm 16 k iv m" for k iv m
    by (simp add: evp_encrypts_def ref_openssl_def)
  moreover have "evp_encrypts ref_openssl EVP_aes_256_cbc 0 k iv m" for k iv m
    using cbc_roundtrip [of m] unfolding evp_encrypts_def ref_openssl_def
    by (simp del: take_append drop_append length_append of_nat_add)
  ultimately show ?thesis
    by (simp add: openssl_ok_def evp_ok_def ref_evp_bounded)
      (simp add: evp_sizes_ok_def ref_openssl_def)
qed

subsection \<open>Json\<close>

text \<open>
  Values are trees; the text of a tree is a prefix code (one tag byte per node, every byte of a
  string escaped by a 1 and the string closed by a 0), read back with fuel.
\<close>

datatype jref =
    JStr bytes
  | JNull
  | JBool bool
  | JNum "16 word"
  | JArr "jref list"
  | JObj "(bytes \<times> jref) list"

fun net :: "bytes \<Rightarrow> bytes" where
  "net [] = [0]"
| "net (b # s) = 1 # b # net s"

fun un_net :: "bytes \<Rightarrow> (bytes \<times> bytes) option" where
  "un_net [] = None"
| "un_net [c] = (if c = 0 then Some ([], []) else None)"
| "un_net (c # b # r) =
     (if c = 0 then Some ([], b # r)
      else map_option (\<lambda>(s, r'). (b # s, r')) (un_net r))"

lemma un_net_net: "un_net (net s @ rest) = Some (s, rest)"
proof (induction s)
  case Nil
  show ?case by (cases rest) simp_all
next
  case (Cons b s)
  then show ?case by simp
qed

lemma length_net [simp]: "length (net s) = 2 * length s + 1"
  by (induction s) simp_all

fun jenc :: "jref \<Rightarrow> bytes" and jenc_list :: "jref list \<Rightarrow> bytes"
  and jenc_members :: "(bytes \<times> jref) list \<Rightarrow> bytes" where
  "jenc (JStr s) = 1 # net s"
| "jenc JNull = [2]"
| "jenc (JBool b) = [3, if b then 1 else 0]"
| "jenc (JNum w) = [4, ucast (drop_bit 8 w), ucast w]"
| "jenc (JArr js) = 5 # jenc_list js"
| "jenc (JObj kvs) = 6 # jenc_members kvs"
| "jenc_list [] = [0]"
| "jenc_list (j # js) = 7 # jenc j @ jenc_list js"
| "jenc_members [] = [0]"
| "jenc_members ((k, j) # kvs) = 8 # net k @ jenc j @ jenc_members kvs"

definition num_of_bytes :: "byte \<Rightarrow> byte \<Rightarrow> 16 word" where
  "num_of_bytes h l = push_bit 8 (ucast h) OR ucast l"

lemma num_of_bytes: "num_of_bytes (ucast (drop_bit 8 w)) (ucast w) = w"
  by (rule bit_word_eqI) (auto simp: num_of_bytes_def bit_simps)

fun jdec :: "nat \<Rightarrow> bytes \<Rightarrow> (jref \<times> bytes) option"
  and jdec_list :: "nat \<Rightarrow> bytes \<Rightarrow> (jref list \<times> bytes) option"
  and jdec_members :: "nat \<Rightarrow> bytes \<Rightarrow> ((bytes \<times> jref) list \<times> bytes) option" where
  "jdec (Suc n) (c # r) =
     (if c = 1 then map_option (\<lambda>(s, r). (JStr s, r)) (un_net r)
      else if c = 2 then Some (JNull, r)
      else if c = 3 then (case r of b # r \<Rightarrow> Some (JBool (b = 1), r) | _ \<Rightarrow> None)
      else if c = 4 then (case r of h # l # r \<Rightarrow> Some (JNum (num_of_bytes h l), r) | _ \<Rightarrow> None)
      else if c = 5 then map_option (\<lambda>(js, r). (JArr js, r)) (jdec_list n r)
      else if c = 6 then map_option (\<lambda>(kvs, r). (JObj kvs, r)) (jdec_members n r)
      else None)"
| "jdec n r = None"
| "jdec_list (Suc n) (c # r) =
     (if c = 0 then Some ([], r)
      else Option.bind (jdec n r) (\<lambda>(j, r).
        map_option (\<lambda>(js, r). (j # js, r)) (jdec_list n r)))"
| "jdec_list n r = None"
| "jdec_members (Suc n) (c # r) =
     (if c = 0 then Some ([], r)
      else Option.bind (un_net r) (\<lambda>(k, r). Option.bind (jdec n r) (\<lambda>(j, r).
        map_option (\<lambda>(kvs, r). ((k, j) # kvs, r)) (jdec_members n r))))"
| "jdec_members n r = None"

lemma jdec_enc:
  "length (jenc j) \<le> n \<Longrightarrow> jdec n (jenc j @ rest) = Some (j, rest)"
  "length (jenc_list js) \<le> n \<Longrightarrow> jdec_list n (jenc_list js @ rest) = Some (js, rest)"
  "length (jenc_members kvs) \<le> n \<Longrightarrow> jdec_members n (jenc_members kvs @ rest) = Some (kvs, rest)"
proof (induction j and js and kvs arbitrary: n rest and n rest and n rest
    rule: jenc_jenc_list_jenc_members.induct)
  case (1 s)
  then show ?case by (cases n) (simp_all add: un_net_net)
next
  case 2
  then show ?case by (cases n) simp_all
next
  case (3 b)
  then show ?case by (cases n) simp_all
next
  case (4 w)
  then show ?case by (cases n) (simp_all add: num_of_bytes)
next
  case (5 js)
  then show ?case by (cases n) simp_all
next
  case (6 kvs)
  then show ?case by (cases n) simp_all
next
  case 7
  then show ?case by (cases n) simp_all
next
  case (8 j js)
  then show ?case by (cases n) simp_all
next
  case 9
  then show ?case by (cases n) simp_all
next
  case (10 k j kvs)
  then show ?case by (cases n) (simp_all add: un_net_net)
qed

fun ascii_tree :: "jref \<Rightarrow> bool" where
  "ascii_tree (JStr s) = ascii s"
| "ascii_tree (JArr js) = list_all ascii_tree js"
| "ascii_tree (JObj kvs) = list_all (\<lambda>(k, j). ascii k \<and> ascii_tree j) kvs"
| "ascii_tree j = True"

definition ref_json :: "jref json_lib" where
  "ref_json =
     \<lparr>js_parse = (\<lambda>s. case jdec (length s) s of Some (j, []) \<Rightarrow> Some j | _ \<Rightarrow> None),
      js_dump = (\<lambda>j. if ascii_tree j then Some (jenc j) else None),
      js_object = JObj,
      js_string = JStr,
      js_bool = JBool,
      js_uint16 = JNum,
      js_braces = JNull,
      js_find = (\<lambda>j k. case j of JObj kvs \<Rightarrow> map_of kvs k | _ \<Rightarrow> None),
      js_at = (\<lambda>j k. case j of JObj kvs \<Rightarrow> map_of kvs k | _ \<Rightarrow> None),
      js_get_string = (\<lambda>j. case j of JStr s \<Rightarrow> Some s | _ \<Rightarrow> None),
      js_get_uint16 = (\<lambda>j. case j of JNum w \<Rightarrow> Some w | JBool b \<Rightarrow> Some (if b then 1 else 0) | _ \<Rightarrow> None),
      js_elements = (\<lambda>j. case j of JArr js \<Rightarrow> js | JObj kvs \<Rightarrow> map snd kvs | JNull \<Rightarrow> [] | _ \<Rightarrow> [j])\<rparr>"

lemma length_jenc_strings:
  "length (jenc_members (map (\<lambda>(k, s). (k, JStr s)) kvs)) = 2 * members_size kvs + 4 * length kvs + 1"
  by (induction kvs) (auto simp: members_size_def)

lemma map_of_map_snd: "map_of (map (\<lambda>(k, s). (k, f s)) kvs) k = map_option f (map_of kvs k)"
  by (induction kvs) auto

lemma ref_parse_dump: "js_parse ref_json (jenc j) = Some j"
  using jdec_enc(1) [of j "length (jenc j)" "[]"] by (simp add: ref_json_def)

lemma ascii_tree_strings:
  "list_all (\<lambda>(k, s). ascii k \<and> ascii s) kvs \<Longrightarrow>
   ascii_tree (JObj (map (\<lambda>(k, s). (k, JStr s)) kvs))"
  by (induction kvs) auto

lemma ref_js_strings: "js_strings ref_json kvs = JObj (map (\<lambda>(k, s). (k, JStr s)) kvs)"
  by (simp add: js_strings_def ref_json_def)

lemma ref_dump_strings:
  assumes "list_all (\<lambda>(k, s). ascii k \<and> ascii s) kvs"
  shows "\<exists>d. js_dump ref_json (js_strings ref_json kvs) = Some d \<and>
    js_parse ref_json d = Some (js_strings ref_json kvs) \<and>
    length d \<le> 6 * members_size kvs + 8 * length kvs + 2"
proof (intro exI conjI)
  let ?j = "JObj (map (\<lambda>(k, s). (k, JStr s)) kvs)"
  show "js_dump ref_json (js_strings ref_json kvs) = Some (jenc ?j)"
    using ascii_tree_strings [OF assms] unfolding ref_js_strings by (simp add: ref_json_def)
  show "js_parse ref_json (jenc ?j) = Some (js_strings ref_json kvs)"
    by (simp only: ref_js_strings ref_parse_dump)
  show "length (jenc ?j) \<le> 6 * members_size kvs + 8 * length kvs + 2"
    by (simp add: length_jenc_strings)
qed

lemma ref_json_ok: "json_ok ref_json"
  unfolding json_ok_def
  using ref_dump_strings by (simp add: ref_js_strings) (simp add: ref_json_def map_of_map_snd)

text \<open>A text that parses is as long as the one its value is written as.\<close>

lemma un_net_length: "un_net s = Some (t, r) \<Longrightarrow> length s = length (net t) + length r"
  by (induction s arbitrary: t r rule: un_net.induct) (auto split: if_splits)

lemma jdec_length:
  "jdec n s = Some (j, r) \<Longrightarrow> length s = length (jenc j) + length r"
  "jdec_list n s = Some (js, r) \<Longrightarrow> length s = length (jenc_list js) + length r"
  "jdec_members n s = Some (kvs, r) \<Longrightarrow> length s = length (jenc_members kvs) + length r"
proof (induction n s and n s and n s arbitrary: j r and js r and kvs r
    rule: jdec_jdec_list_jdec_members.induct)
  case (1 n c r)
  then show ?case by (auto split: if_splits list.splits dest!: un_net_length)
next
  case (3 n c r)
  then show ?case by (auto split: if_splits simp: bind_eq_Some_conv)
next
  case (5 n c r)
  then show ?case
    by (auto split: if_splits simp: bind_eq_Some_conv) (drule un_net_length; fastforce)
qed simp_all

lemma jenc_members_nonempty: "Suc 0 \<le> length (jenc_members kvs)"
  by (cases kvs) auto

lemma member_length:
  "map_of kvs k = Some j \<Longrightarrow>
   2 * length k + length (jenc j) + 3 \<le> length (jenc_members kvs)"
proof (induction kvs)
  case (Cons x kvs)
  then show ?case using jenc_members_nonempty [of kvs] by (cases x) (auto split: if_splits)
qed simp

lemma ref_json_text_ok: "json_text_ok ref_json"
  by (auto simp: json_text_ok_def ref_json_def split: option.splits list.splits jref.splits
      dest!: jdec_length(1) member_length)

lemma ref_cbc_final_ok: "evp_cbc_final_ok ref_openssl"
  by (simp add: evp_cbc_final_ok_def ref_openssl_def ref_input_def cbc_unpad_def)

definition ref_libs :: "(nat, jref) libs" where
  "ref_libs = \<lparr>lib_na = ref_sodium, lib_evp = ref_openssl, lib_ox = ref_oxenc, lib_js = ref_json\<rparr>"

theorem ref_libs_ok: "libs_ok ref_libs"
  by (simp add: libs_ok_def ref_libs_def ref_sodium_ok ref_openssl_ok ref_json_ok ref_oxenc_ok)

end
