(* ===== verification/Key_Types.thy ===== *)
theory Key_Types
  imports Reference_Libs
begin

text \<open>
  onionreq/key_types.hpp and key_types.cpp: fixed-length keys, their text forms, the loaders and
  the length-driven parser. A key is the list of its bytes (\<open>std::array<unsigned char, N>\<close>); where
  the code declares a key without initialising it, the model takes its indeterminate contents as
  an argument (\<open>mem\<close>), so that a theorem can say they never show. The keys' C++ classes differ
  only in their length and in how a secret key yields its public key.
\<close>

type_synonym legacy_pubkey = bytes
type_synonym x25519_pubkey = bytes
type_synonym ed25519_pubkey = bytes
type_synonym legacy_seckey = bytes
type_synonym x25519_seckey = bytes
type_synonym ed25519_seckey = bytes
text \<open>The classes and their template argument \<open>KeyLength\<close>.\<close>

datatype key_class =
    Legacy_Pubkey
  | X25519_Pubkey
  | Ed25519_Pubkey
  | Legacy_Seckey
  | Ed25519_Seckey
  | X25519_Seckey

fun KeyLength :: "key_class \<Rightarrow> nat" where
  "KeyLength Legacy_Pubkey = 32"
| "KeyLength X25519_Pubkey = 32"
| "KeyLength Ed25519_Pubkey = 32"
| "KeyLength Legacy_Seckey = 32"
| "KeyLength Ed25519_Seckey = 64"
| "KeyLength X25519_Seckey = 32"

type_synonym x25519_keypair = "x25519_pubkey \<times> x25519_seckey"
type_synonym legacy_keypair = "legacy_pubkey \<times> legacy_seckey"
type_synonym ed25519_keypair = "ed25519_pubkey \<times> ed25519_seckey"

subsection \<open>Loading and printing\<close>

definition null_bytes :: "nat \<Rightarrow> bytes" where
  "null_bytes n = replicate n 0"

definition load_from_hex :: "oxenc \<Rightarrow> bytes \<Rightarrow> bytes \<Rightarrow> bytes result" where
  "load_from_hex X buffer hex =
     ebind (require (ox_is_hex X hex)
       (Runtime_Error (str ''Hex key data is invalid: data is not hex''))) (\<lambda>_.
     ebind (require (length hex = 2 * length buffer)
       (Runtime_Error (str ''Hex key data is invalid: expected '' @ std_to_string (length buffer)
          @ str '' hex digits, received '' @ std_to_string (length hex)))) (\<lambda>_.
     write_at buffer 0 (ox_from_hex X hex)))"

definition load_from_bytes :: "bytes \<Rightarrow> bytes \<Rightarrow> bytes result" where
  "load_from_bytes buffer data =
     ebind (require (length data = length buffer)
       (Runtime_Error (str ''Key data is invalid: expected '' @ std_to_string (length buffer)
          @ str '' bytes, received '' @ std_to_string (length data)))) (\<lambda>_.
     write_at buffer 0 data)"

definition to_hex :: "oxenc \<Rightarrow> bytes \<Rightarrow> bytes" where
  "to_hex X buffer = ox_to_hex X buffer"

definition key_view :: "bytes \<Rightarrow> bytes" where
  "key_view k = k"

definition key_hex :: "oxenc \<Rightarrow> bytes \<Rightarrow> bytes" where
  "key_hex X k = to_hex X k"

definition key_bool :: "bytes \<Rightarrow> bool" where
  "key_bool k \<longleftrightarrow> k \<noteq> null_bytes (length k)"

definition key_from_hex :: "oxenc \<Rightarrow> bytes \<Rightarrow> bytes \<Rightarrow> bytes result" where
  "key_from_hex X mem hex = load_from_hex X mem hex"

definition key_maybe_from_hex :: "oxenc \<Rightarrow> bytes \<Rightarrow> bytes \<Rightarrow> bytes option result" where
  "key_maybe_from_hex X mem hex = catch_all (key_from_hex X mem hex)"

definition key_from_bytes :: "bytes \<Rightarrow> bytes \<Rightarrow> bytes result" where
  "key_from_bytes mem data = load_from_bytes mem data"

definition snode_address :: "oxenc \<Rightarrow> ed25519_pubkey \<Rightarrow> bytes" where
  "snode_address X pk = ox_to_base32z X pk @ str ''.snode''"

subsection \<open>Public keys of secret keys\<close>

definition legacy_seckey_pubkey :: "ed25519 \<Rightarrow> legacy_seckey \<Rightarrow> legacy_pubkey" where
  "legacy_seckey_pubkey D sk = snd (ed_base_noclamp D sk)"

definition ed25519_seckey_pubkey :: "ed25519 \<Rightarrow> ed25519_seckey \<Rightarrow> ed25519_pubkey" where
  "ed25519_seckey_pubkey D sk = ed_sk_to_pk D sk"

definition x25519_seckey_pubkey :: "'r sodium \<Rightarrow> x25519_seckey \<Rightarrow> x25519_pubkey" where
  "x25519_seckey_pubkey N sk = na_scalarmult_base N sk"

subsection \<open>The parser that goes by length\<close>

definition parse_pubkey :: "oxenc \<Rightarrow> bytes \<Rightarrow> bytes result" where
  "parse_pubkey X pubkey_in =
     (let pk = null_bytes 32 in
      if length pubkey_in = 32 then load_from_bytes pk pubkey_in
      else if length pubkey_in = 64 \<and> ox_is_hex X pubkey_in
      then write_at pk 0 (ox_from_hex X pubkey_in)
      else if (length pubkey_in = 43 \<or> length pubkey_in = 44 \<and> last pubkey_in = 61)
        \<and> ox_is_base64 X pubkey_in
      then write_at pk 0 (ox_from_base64 X pubkey_in)
      else if length pubkey_in = 52 \<and> ox_is_base32z X pubkey_in
      then write_at pk 0 (ox_from_base32z X pubkey_in)
      else Inr pk)"

definition parse_legacy_pubkey :: "oxenc \<Rightarrow> bytes \<Rightarrow> legacy_pubkey result" where
  "parse_legacy_pubkey X s = parse_pubkey X s"

definition parse_ed25519_pubkey :: "oxenc \<Rightarrow> bytes \<Rightarrow> ed25519_pubkey result" where
  "parse_ed25519_pubkey X s = parse_pubkey X s"

definition parse_x25519_pubkey :: "oxenc \<Rightarrow> bytes \<Rightarrow> x25519_pubkey result" where
  "parse_x25519_pubkey X s = parse_pubkey X s"

text \<open>
  \<open>std::hash\<close> of a public key: its first eight bytes read in place as a \<open>size_t\<close> (64 bits,
  little-endian host).
\<close>

definition hash_pubkey :: "bytes \<Rightarrow> 64 word" where
  "hash_pubkey pk = le_word64 pk"

text \<open>The stream operators append the hex text.\<close>

definition key_ostream :: "oxenc \<Rightarrow> bytes \<Rightarrow> bytes \<Rightarrow> bytes" where
  "key_ostream X out key = out @ key_hex X key"

subsection \<open>Lemmas\<close>

lemma length_null_bytes [simp]: "length (null_bytes n) = n"
  by (simp add: null_bytes_def)

lemma hex_okD:
  assumes "hex_ok X"
  shows "ox_is_hex X (ox_to_hex X b)" "ox_from_hex X (ox_to_hex X b) = b"
    "length (ox_to_hex X b) = 2 * length b" "ascii (ox_to_hex X b)"
    "ox_is_hex X s \<Longrightarrow> length s = 2 * length (ox_from_hex X s)"
    "ox_from_hex_size X n = n div 2"
  using assms by (simp_all add: hex_ok_def)

lemma base32z_okD:
  assumes "base32z_ok X"
  shows "ox_is_base32z X (ox_to_base32z X b)" "ox_from_base32z X (ox_to_base32z X b) = b"
    "length (ox_to_base32z X b) = (8 * length b + 4) div 5"
    "ox_is_base32z X s \<Longrightarrow> length (ox_from_base32z X s) = 5 * length s div 8"
  using assms by (simp_all add: base32z_ok_def)

lemma b64_unpadded_bounds: "length s - 2 \<le> b64_unpadded_length s \<and> b64_unpadded_length s \<le> length s"
  by (simp add: b64_unpadded_length_def Let_def)

lemma b64_unpadded_one:
  assumes "last s = 61" and "s \<noteq> []"
  shows "b64_unpadded_length s < length s"
  using assms by (cases s rule: rev_cases) (simp_all add: b64_unpadded_length_def Let_def)

lemma base64_key_length:
  assumes "base64_ok X" and "ox_is_base64 X s"
    and "length s = 43 \<or> length s = 44 \<and> last s = 61"
  shows "length (ox_from_base64 X s) \<le> 32"
proof -
  have "b64_unpadded_length s \<le> 43"
    using assms(3) b64_unpadded_bounds [of s] b64_unpadded_one [of s]
    by (cases "s = []") auto
  moreover have "length (ox_from_base64 X s) = 3 * b64_unpadded_length s div 4"
    using assms by (simp add: base64_ok_def)
  ultimately show ?thesis by linarith
qed

lemma load_from_hex_spec:
  assumes "hex_ok X"
  shows "load_from_hex X mem hex =
    (if \<not> ox_is_hex X hex
     then Inl (Runtime_Error (str ''Hex key data is invalid: data is not hex''))
     else if length hex \<noteq> 2 * length mem
     then Inl (Runtime_Error (str ''Hex key data is invalid: expected '' @ std_to_string (length mem)
          @ str '' hex digits, received '' @ std_to_string (length hex)))
     else Inr (ox_from_hex X hex))"
  using hex_okD(5) [OF assms, of hex] by (simp add: load_from_hex_def write_at_full)

lemma load_from_bytes_spec:
  "load_from_bytes mem data =
    (if length data \<noteq> length mem
     then Inl (Runtime_Error (str ''Key data is invalid: expected '' @ std_to_string (length mem)
          @ str '' bytes, received '' @ std_to_string (length data)))
     else Inr data)"
  by (simp add: load_from_bytes_def write_at_full)

lemma write_null_key:
  "length d \<le> 32 \<Longrightarrow> write_at (null_bytes 32) 0 d = Inr (d @ replicate (32 - length d) 0)"
  by (simp add: write_at_def null_bytes_def)

lemma load_from_hex_key:
  "hex_ok X \<Longrightarrow> length k = length mem \<Longrightarrow> load_from_hex X mem (ox_to_hex X k) = Inr k"
  by (simp add: load_from_hex_spec hex_okD)

lemma parse_pubkey_raw: "length k = 32 \<Longrightarrow> parse_pubkey X k = Inr k"
  by (simp add: parse_pubkey_def load_from_bytes_spec)

lemma parse_pubkey_hex: "hex_ok X \<Longrightarrow> length k = 32 \<Longrightarrow> parse_pubkey X (ox_to_hex X k) = Inr k"
  by (simp add: parse_pubkey_def hex_okD write_at_full)

lemma parse_pubkey_base32z:
  "base32z_ok X \<Longrightarrow> length k = 32 \<Longrightarrow> parse_pubkey X (ox_to_base32z X k) = Inr k"
  by (simp add: parse_pubkey_def base32z_okD write_at_full)

lemma parse_pubkey_key:
  assumes "hex_ok X" and "base64_ok X" and "base32z_ok X"
  shows "\<exists>pk. parse_pubkey X s = Inr pk \<and> length pk = 32"
proof -
  have "length (ox_from_hex X s) \<le> 32" if "length s = 64" "ox_is_hex X s"
    using hex_okD(5) [OF assms(1) that(2)] that(1) by simp
  moreover have "length (ox_from_base32z X s) \<le> 32" if "length s = 52" "ox_is_base32z X s"
    using base32z_okD(4) [OF assms(3) that(2)] that(1) by simp
  ultimately show ?thesis
    using base64_key_length [OF assms(2), of s]
    by (auto simp: parse_pubkey_def Let_def load_from_bytes_spec write_null_key)
qed

lemma parse_pubkey_defined:
  "hex_ok X \<Longrightarrow> base64_ok X \<Longrightarrow> base32z_ok X \<Longrightarrow> is_defined (parse_pubkey X s)"
  using parse_pubkey_key [of X s] by auto

subsection \<open>The text forms of a key, as an interface\<close>

text \<open>
  What a client that prints a key and a client that parses it rely on: printing is read back.
  \<open>ok\<close> is the contract of the library the provider rests on.
\<close>

locale key_text =
  fixes ok :: "'l \<Rightarrow> bool"
    and print :: "'l \<Rightarrow> bytes \<Rightarrow> bytes"
    and parse :: "'l \<Rightarrow> bytes \<Rightarrow> bytes result"
  assumes parse_print: "ok l \<Longrightarrow> length k = 32 \<Longrightarrow> parse l (print l k) = Inr k"
begin

lemma print_inject:
  assumes "ok l" and "length k = 32" and "length k' = 32"
  shows "print l k = print l k' \<longleftrightarrow> k = k'"
  using parse_print [OF assms(1,2)] parse_print [OF assms(1,3)] by (metis Inr_inject)

lemma parse_print_defined: "ok l \<Longrightarrow> length k = 32 \<Longrightarrow> is_defined (parse l (print l k))"
  by (simp add: parse_print)

end

interpretation hex_text: key_text hex_ok key_hex parse_x25519_pubkey
  by unfold_locales (simp add: key_hex_def to_hex_def parse_x25519_pubkey_def parse_pubkey_hex)

interpretation base32z_text: key_text base32z_ok ox_to_base32z parse_ed25519_pubkey
  by unfold_locales (simp add: parse_ed25519_pubkey_def parse_pubkey_base32z)

interpretation raw_text: key_text "\<lambda>X. True" "\<lambda>X. key_view" parse_legacy_pubkey
  by unfold_locales (simp add: key_view_def parse_legacy_pubkey_def parse_pubkey_raw)

subsection \<open>Properties\<close>

text \<open>
  Printing a key in hex and loading the text again gives the same key, whatever the length
  of the key and whatever the uninitialised memory it is loaded into held.
\<close>

theorem key_hex_roundtrip:
  assumes "hex_ok X" and "length mem = length k"
  shows "key_from_hex X mem (key_hex X k) = Inr k"
  using assms by (simp add: key_from_hex_def key_hex_def to_hex_def load_from_hex_key)

theorem key_hex_roundtrip_witness:
  "key_from_hex ref_oxenc [9, 9] (key_hex ref_oxenc [18, 255]) = Inr [18, 255]"
  by (rule key_hex_roundtrip) (simp_all add: ref_oxenc_ok)

text \<open>
  \<open>maybe_from_hex\<close> yields the decoded key exactly for hex text of twice the key's length and
  \<open>nullopt\<close> for anything else; it never aborts, never writes out of bounds and never exposes the
  uninitialised key.
\<close>

theorem key_maybe_from_hex_spec:
  assumes "hex_ok X"
  shows "key_maybe_from_hex X mem hex =
    Inr (if ox_is_hex X hex \<and> length hex = 2 * length mem then Some (ox_from_hex X hex) else None)"
  using assms by (simp add: key_maybe_from_hex_def key_from_hex_def load_from_hex_spec)

theorem key_maybe_from_hex_spec_witness:
  "key_maybe_from_hex ref_oxenc [9] (str ''zz'') = Inr None"
proof -
  have "\<not> ref_is_hex (str ''zz'')"
    by (simp add: ref_is_hex_def str_def hex_value_def)
  then show ?thesis
    using key_maybe_from_hex_spec [OF ref_oxenc_ok(1), of "[9]" "str ''zz''"]
    by (simp add: ref_oxenc_def)
qed

text \<open>
  C39. \<open>parse_pubkey\<close> never throws and never writes past the 32-byte key: for every input, of any
  length and content, it returns a 32-byte key.
\<close>

theorem parse_pubkey_total:
  assumes "hex_ok X" and "base64_ok X" and "base32z_ok X"
  shows "\<exists>pk. parse_pubkey X s = Inr pk \<and> length pk = 32"
  using assms by (rule parse_pubkey_key)

theorem parse_pubkey_total_witness:
  "\<exists>pk. parse_pubkey ref_oxenc [1, 2, 3] = Inr pk \<and> length pk = 32"
  by (rule parse_pubkey_total) (rule ref_oxenc_ok)+

text \<open>
  \<open>parse_pubkey\<close> reads back every text form of a 32-byte key: its raw bytes, its hex and its
  base32z.
\<close>

theorem parse_pubkey_forms:
  assumes "hex_ok X" and "base32z_ok X" and "length k = 32"
  shows "parse_legacy_pubkey X (key_view k) = Inr k \<and>
    parse_x25519_pubkey X (key_hex X k) = Inr k \<and>
    parse_ed25519_pubkey X (ox_to_base32z X k) = Inr k"
  using assms raw_text.parse_print hex_text.parse_print base32z_text.parse_print by simp

theorem parse_pubkey_forms_witness:
  "parse_x25519_pubkey ref_oxenc (key_hex ref_oxenc (replicate 32 7)) = Inr (replicate 32 7)"
  using parse_pubkey_forms [OF ref_oxenc_ok(1,3), of "replicate 32 7"] by simp

text \<open>
  The loaders of each key class accept exactly its keys: \<open>from_bytes\<close> returns its input where that has
  the length of the class and throws otherwise, \<open>from_hex\<close> returns only keys of that length, and what
  \<open>view\<close> and \<open>hex\<close> print of a key is loaded again.
\<close>

theorem key_class_loaders:
  assumes "hex_ok X" and "length mem = KeyLength c"
  shows "(length s = KeyLength c \<longrightarrow> key_from_bytes mem s = Inr s) \<and>
    (length s \<noteq> KeyLength c \<longrightarrow> (\<exists>msg. key_from_bytes mem s = Inl (Runtime_Error msg))) \<and>
    (\<forall>k. key_from_hex X mem s = Inr k \<longrightarrow> length k = KeyLength c) \<and>
    (length k = KeyLength c \<longrightarrow> key_from_bytes mem (key_view k) = Inr k \<and> key_from_hex X mem (key_hex X k) = Inr k)"
  using assms hex_okD(5) [OF assms(1), of s]
  by (auto simp: key_from_bytes_def load_from_bytes_spec key_from_hex_def load_from_hex_spec [OF assms(1)]
      key_view_def key_hex_def to_hex_def hex_okD split: if_splits)

theorem key_class_loaders_witness:
  "key_from_bytes (replicate 64 9) (replicate 64 7) = Inr (replicate 64 7) \<and>
    (\<exists>msg. key_from_bytes (replicate 64 9) [1, 2] = Inl (Runtime_Error msg))"
  using key_class_loaders [OF ref_oxenc_ok(1), of "replicate 64 9" Ed25519_Seckey "replicate 64 7"]
    key_class_loaders [OF ref_oxenc_ok(1), of "replicate 64 9" Ed25519_Seckey "[1, 2]"]
  by simp

text \<open>
  Text whose length is none of 32, 43, 44, 52 and 64 is rejected by value: the result is the
  null key, for which the key's \<open>operator bool\<close> is false.
\<close>

theorem parse_pubkey_wrong_length:
  assumes "length s \<notin> {32, 43, 44, 52, 64}"
  shows "parse_pubkey X s = Inr (null_bytes 32) \<and> \<not> key_bool (null_bytes 32)"
  using assms by (simp add: parse_pubkey_def key_bool_def)

theorem parse_pubkey_wrong_length_witness:
  "parse_pubkey ref_oxenc [65, 66] = Inr (null_bytes 32) \<and> \<not> key_bool (null_bytes 32)"
  by (rule parse_pubkey_wrong_length) simp

text \<open>
  The base64 branch also accepts text of a value of 31 bytes, one short of a key: 44
  characters with two padding signs give a key whose last byte is the initial zero, not the null
  key the header promises for input of the wrong length.
\<close>

theorem parse_pubkey_short_base64:
  assumes "base64_ok X" and "ox_is_base64 X s" and "length s = 44"
    and "drop 42 s = [61, 61]" and "\<not> ox_is_hex X s"
  shows "parse_pubkey X s = Inr (ox_from_base64 X s @ [0])"
proof -
  have s: "s = take 42 s @ [61, 61]"
    using append_take_drop_id [of 42 s] assms(4) by simp
  then have "last s = 61" and "b64_unpadded_length s = 42"
    using assms(3) by (metis last_appendR last.simps list.distinct(1))
      (subst s, simp add: b64_unpadded_length_def Let_def assms(3))
  then have "length (ox_from_base64 X s) = 31"
    using assms(1,2) by (simp add: base64_ok_def)
  then show ?thesis
    using assms(2,3) \<open>last s = 61\<close> by (simp add: parse_pubkey_def write_at_def null_bytes_def)
qed

theorem parse_pubkey_short_base64_witness:
  "parse_pubkey ref_oxenc (replicate 42 65 @ [61, 61]) = Inr (replicate 31 0 @ [0])"
proof -
  let ?s = "replicate 42 (65 :: byte) @ [61, 61]"
  have "ox_is_base64 ref_oxenc ?s" and "ox_from_base64 ref_oxenc ?s = replicate 31 0"
    and "\<not> ox_is_hex ref_oxenc ?s"
    by code_simp+
  then show ?thesis
    using parse_pubkey_short_base64 [OF ref_oxenc_ok(2), of ?s]
    by simp
qed

end
