(* ===== verification/Channel_Encryption.thy ===== *)
theory Channel_Encryption
  imports Key_Types
begin

text \<open>
  onionreq/channel_encryption.hpp and channel_encryption.cpp: the two ends of an encrypted channel
  and its three ciphers. The buffers are modelled as the code has them: an output of computed
  size, writes through a moving pointer (an offset), and a final \<open>resize\<close>. A ciphertext is a
  view into a longer buffer: the decrypting functions take the bytes of the view and, apart from
  them, the bytes \<open>behind\<close> it that belong to the same buffer, because a pointer into the view can be
  read past its end. A write past the buffer, or a read past what lies behind the view, is
  \<open>Undefined\<close>. Out of memory is not modelled.
\<close>

datatype enc_type = aes_cbc | aes_gcm | xchacha20

record channel =
  private_key :: x25519_seckey
  public_key :: x25519_pubkey
  server :: bool

subsection \<open>Names of the encryption types\<close>

definition parse_enc_type :: "bytes \<Rightarrow> enc_type result" where
  "parse_enc_type s =
     (if s = str ''xchacha20'' \<or> s = str ''xchacha20-poly1305'' then Inr xchacha20
      else if s = str ''aes-gcm'' \<or> s = str ''gcm'' then Inr aes_gcm
      else if s = str ''aes-cbc'' \<or> s = str ''cbc'' then Inr aes_cbc
      else Inl (Runtime_Error (str ''Invalid encryption type '' @ s)))"

fun enc_type_string :: "enc_type \<Rightarrow> bytes" where
  "enc_type_string xchacha20 = str ''xchacha20''"
| "enc_type_string aes_gcm = str ''aes-gcm''"
| "enc_type_string aes_cbc = str ''aes-cbc''"

subsection \<open>Keys\<close>

definition calculate_shared_secret ::
    "'r sodium \<Rightarrow> x25519_seckey \<Rightarrow> x25519_pubkey \<Rightarrow> bytes result" where
  "calculate_shared_secret N seckey pubkey =
     or_throw (na_scalarmult N seckey pubkey)
       (Runtime_Error (str ''Shared key derivation failed (crypto_scalarmult)''))"

definition salt :: bytes where
  "salt = str ''LOKI''"

definition derive_symmetric_key ::
    "'r sodium \<Rightarrow> x25519_seckey \<Rightarrow> x25519_pubkey \<Rightarrow> bytes result" where
  "derive_symmetric_key N seckey pubkey =
     ebind (calculate_shared_secret N seckey pubkey) (\<lambda>key.
     Inr (na_hmacsha256 N salt [key]))"

definition xchacha20_shared_key ::
    "'r sodium \<Rightarrow> x25519_pubkey \<Rightarrow> x25519_seckey \<Rightarrow> x25519_pubkey \<Rightarrow> bool \<Rightarrow> bytes result" where
  "xchacha20_shared_key N local_pub local_sec remote_pub local_first =
     ebind (or_throw (na_scalarmult N local_sec remote_pub)
       (Runtime_Error (str ''Failed to compute shared key for xchacha20''))) (\<lambda>key.
     Inr (na_generichash N 32 []
       [key,
        if local_first then local_pub else remote_pub,
        if local_first then remote_pub else local_pub]))"

subsection \<open>AES through OpenSSL\<close>

definition encrypt_openssl ::
    "'r sodium \<Rightarrow> openssl \<Rightarrow> evp_cipher \<Rightarrow> nat \<Rightarrow> bytes \<Rightarrow> bytes \<Rightarrow> ('r, bytes) eff" where
  "encrypt_openssl N E cipher taglen plaintext key r =
     (let ivLength = evp_iv_length E cipher;
          inl = narrow_int (length plaintext);
          output = replicate (ivLength + length plaintext + evp_block_size E cipher + taglen) 0;
          (iv, r') = na_randombytes N ivLength r
      in (ebind (write_at output 0 iv) (\<lambda>output.
          ebind (require (evp_encrypt_init E cipher key iv)
            (Runtime_Error (str ''Could not initialise encryption context''))) (\<lambda>_.
          ebind (or_throw (evp_encrypt_update E cipher key iv plaintext inl)
            (Runtime_Error (str ''Could not encrypt plaintext''))) (\<lambda>u.
          ebind (write_at output ivLength u) (\<lambda>output.
          ebind (or_throw (evp_encrypt_final E cipher key iv plaintext inl)
            (Runtime_Error (str ''Could not finalise encryption''))) (\<lambda>f.
          ebind (write_at output (ivLength + length u) f) (\<lambda>output.
          let o' = ivLength + length u + length f in
          ebind (if 0 < taglen
                 then ebind (or_throw (evp_get_tag E cipher key iv plaintext inl taglen)
                        (Runtime_Error (str ''Failed to copy encryption tag''))) (write_at output o')
                 else Inr output) (\<lambda>output.
          Inr (resize (o' + taglen) output)))))))), r'))"

definition decrypt_openssl ::
    "openssl \<Rightarrow> evp_cipher \<Rightarrow> nat \<Rightarrow> bytes \<Rightarrow> bytes \<Rightarrow> bytes \<Rightarrow> bytes result" where
  "decrypt_openssl E cipher taglen ciphertext behind key =
     (let iv = take (evp_iv_length E cipher) ciphertext;
          iv_data = take (evp_iv_length E cipher) (ciphertext @ behind);
          rest = drop (length iv) ciphertext
      in ebind (require (taglen \<le> length rest)
           (Runtime_Error (str ''Encrypted value is too short''))) (\<lambda>_.
         let tag = drop (length rest - taglen) rest;
             ct = take (length rest - taglen) rest;
             inl = narrow_int (length ct);
             output = replicate (length ct + evp_block_size E cipher) 0
         in ebind (require (length iv_data = evp_iv_length E cipher)
              (Undefined ''iv read past the end of the ciphertext'')) (\<lambda>_.
            ebind (require (evp_decrypt_init E cipher key iv_data)
              (Runtime_Error (str ''Could not initialise decryption context''))) (\<lambda>_.
            ebind (or_throw (evp_decrypt_update E cipher key iv_data ct inl)
              (Runtime_Error (str ''Could not decrypt block''))) (\<lambda>u.
            ebind (write_at output 0 u) (\<lambda>output.
            ebind (require (tag = [] \<or> evp_set_tag E cipher taglen tag)
              (Runtime_Error (str ''Could not set decryption tag''))) (\<lambda>_.
            ebind (or_throw (evp_decrypt_final E cipher key iv_data ct inl
                (if tag = [] then None else Some tag))
              (Runtime_Error (str ''Could not finalise decryption''))) (\<lambda>f.
            ebind (write_at output (length u) f) (\<lambda>output.
            Inr (resize (length u + length f) output))))))))))"

definition encrypt_cbc ::
    "'r sodium \<Rightarrow> openssl \<Rightarrow> channel \<Rightarrow> bytes \<Rightarrow> x25519_pubkey \<Rightarrow> ('r, bytes) eff" where
  "encrypt_cbc N E c plaintext pubKey =
     sbind (lift (calculate_shared_secret N (private_key c) pubKey))
       (encrypt_openssl N E EVP_aes_256_cbc 0 plaintext)"

definition decrypt_cbc ::
    "'r sodium \<Rightarrow> openssl \<Rightarrow> channel \<Rightarrow> bytes \<Rightarrow> bytes \<Rightarrow> x25519_pubkey \<Rightarrow> bytes result" where
  "decrypt_cbc N E c ciphertext behind pubKey =
     ebind (calculate_shared_secret N (private_key c) pubKey)
       (decrypt_openssl E EVP_aes_256_cbc 0 ciphertext behind)"

definition encrypt_gcm ::
    "'r sodium \<Rightarrow> openssl \<Rightarrow> channel \<Rightarrow> bytes \<Rightarrow> x25519_pubkey \<Rightarrow> ('r, bytes) eff" where
  "encrypt_gcm N E c plaintext pubKey =
     sbind (lift (derive_symmetric_key N (private_key c) pubKey))
       (encrypt_openssl N E EVP_aes_256_gcm 16 plaintext)"

definition decrypt_gcm ::
    "'r sodium \<Rightarrow> openssl \<Rightarrow> channel \<Rightarrow> bytes \<Rightarrow> bytes \<Rightarrow> x25519_pubkey \<Rightarrow> bytes result" where
  "decrypt_gcm N E c ciphertext behind pubKey =
     ebind (derive_symmetric_key N (private_key c) pubKey)
       (decrypt_openssl E EVP_aes_256_gcm 16 ciphertext behind)"

subsection \<open>XChaCha20-Poly1305 through libsodium\<close>

text \<open>\<open>crypto_aead_xchacha20poly1305_ietf_NPUBBYTES\<close> and \<open>_ABYTES\<close>.\<close>

definition NPUBBYTES :: nat where "NPUBBYTES = 24"
definition ABYTES :: nat where "ABYTES = 16"

definition encrypt_xchacha20 ::
    "'r sodium \<Rightarrow> channel \<Rightarrow> bytes \<Rightarrow> x25519_pubkey \<Rightarrow> ('r, bytes) eff" where
  "encrypt_xchacha20 N c plaintext pubKey r =
     (let ciphertext = replicate (NPUBBYTES + length plaintext + ABYTES) 0
      in sbind (lift (xchacha20_shared_key N (public_key c) (private_key c) pubKey (\<not> server c)))
        (\<lambda>key r.
          let (nonce, r') = na_randombytes N NPUBBYTES r
          in (ebind (write_at ciphertext 0 nonce) (\<lambda>ciphertext.
              let boxed = na_xchacha_encrypt N key (take NPUBBYTES ciphertext) plaintext;
                  clen = length boxed
              in ebind (write_at ciphertext NPUBBYTES boxed) (\<lambda>ciphertext.
                 ebind (require (NPUBBYTES + clen \<le> length ciphertext) Aborted) (\<lambda>_.
                 Inr (resize (NPUBBYTES + clen) ciphertext)))), r')) r)"

definition decrypt_xchacha20 ::
    "'r sodium \<Rightarrow> channel \<Rightarrow> bytes \<Rightarrow> bytes \<Rightarrow> x25519_pubkey \<Rightarrow> bytes result" where
  "decrypt_xchacha20 N c ciphertext behind pubKey =
     (let nonce = take NPUBBYTES ciphertext;
          nonce_data = take NPUBBYTES (ciphertext @ behind);
          ct = drop (length nonce) ciphertext
      in ebind (require (ABYTES \<le> length ct)
           (Runtime_Error (str ''Invalid ciphertext: too short''))) (\<lambda>_.
         ebind (xchacha20_shared_key N (public_key c) (private_key c) pubKey (\<not> server c)) (\<lambda>key.
         let plaintext = replicate (length ct - ABYTES) 0
         in ebind (require (length nonce_data = NPUBBYTES)
              (Undefined ''nonce read past the end of the ciphertext'')) (\<lambda>_.
            ebind (or_throw (na_xchacha_decrypt N key nonce_data ct)
              (Runtime_Error (str ''Could not decrypt (XChaCha20-Poly1305)''))) (\<lambda>m.
            ebind (write_at plaintext 0 m) (\<lambda>plaintext.
            ebind (require (length m \<le> length plaintext) Aborted) (\<lambda>_.
            Inr (resize (length m) plaintext))))))))"

subsection \<open>Dispatch on the type\<close>

fun encrypt ::
    "'r sodium \<Rightarrow> openssl \<Rightarrow> channel \<Rightarrow> enc_type \<Rightarrow> bytes \<Rightarrow> x25519_pubkey \<Rightarrow> ('r, bytes) eff" where
  "encrypt N E c xchacha20 plaintext pubkey = encrypt_xchacha20 N c plaintext pubkey"
| "encrypt N E c aes_gcm plaintext pubkey = encrypt_gcm N E c plaintext pubkey"
| "encrypt N E c aes_cbc plaintext pubkey = encrypt_cbc N E c plaintext pubkey"

fun decrypt_in ::
    "'r sodium \<Rightarrow> openssl \<Rightarrow> channel \<Rightarrow> enc_type \<Rightarrow> bytes \<Rightarrow> bytes \<Rightarrow> x25519_pubkey \<Rightarrow> bytes result" where
  "decrypt_in N E c xchacha20 ciphertext behind pubkey = decrypt_xchacha20 N c ciphertext behind pubkey"
| "decrypt_in N E c aes_gcm ciphertext behind pubkey = decrypt_gcm N E c ciphertext behind pubkey"
| "decrypt_in N E c aes_cbc ciphertext behind pubkey = decrypt_cbc N E c ciphertext behind pubkey"

text \<open>The same method on a ciphertext that ends its buffer, or of which nothing else is known.\<close>

definition decrypt ::
    "'r sodium \<Rightarrow> openssl \<Rightarrow> channel \<Rightarrow> enc_type \<Rightarrow> bytes \<Rightarrow> x25519_pubkey \<Rightarrow> bytes result" where
  "decrypt N E c keytype ciphertext pubkey = decrypt_in N E c keytype ciphertext [] pubkey"

lemma decrypt_simps [simp]:
  "decrypt N E c xchacha20 ct pk = decrypt_xchacha20 N c ct [] pk"
  "decrypt N E c aes_gcm ct pk = decrypt_gcm N E c ct [] pk"
  "decrypt N E c aes_cbc ct pk = decrypt_cbc N E c ct [] pk"
  by (simp_all add: decrypt_def)

subsection \<open>Lemmas: names\<close>

lemma parse_enc_type_string: "parse_enc_type (enc_type_string t) = Inr t"
  by (cases t) (simp_all add: parse_enc_type_def str_def)

subsection \<open>Lemmas: the OpenSSL wrapper\<close>

lemma random_okD:
  assumes "random_ok N"
  shows "length (fst (na_randombytes N n r)) = n"
    and "na_box_keypair N r = ((pk, sk), r') \<Longrightarrow> length sk = 32 \<and> pk = na_scalarmult_base N sk"
  using assms unfolding random_ok_def by blast+

text \<open>
  The layout of what \<open>encrypt_openssl\<close> returns: iv, then everything update and final wrote, then
  the tag. Every write stays inside the buffer computed at the start.
\<close>

lemma encrypt_openssl_layout:
  assumes "na_randombytes N (evp_iv_length E c) r = (iv, r')" and "length iv = evp_iv_length E c"
    and "length m < 2 ^ 31"
    and "evp_encrypt_init E c key iv"
    and "evp_encrypt_update E c key iv m (int (length m)) = Some u"
    and "evp_encrypt_final E c key iv m (int (length m)) = Some f"
    and "length u + length f \<le> length m + evp_block_size E c"
    and "length tag = taglen"
    and "0 < taglen \<Longrightarrow> evp_get_tag E c key iv m (int (length m)) taglen = Some tag"
  shows "encrypt_openssl N E c taglen m key r = (Inr (iv @ (u @ f) @ tag), r')"
proof -
  let ?iv = "evp_iv_length E c" and ?n = "length m + evp_block_size E c + taglen"
  have w1: "write_at (replicate (?iv + length m + evp_block_size E c + taglen) 0) 0 iv
      = Inr (iv @ replicate ?n 0)"
    by (simp add: write_at_start assms(2))
  have w2: "write_at (iv @ replicate ?n 0) ?iv u = Inr ((iv @ u) @ replicate (?n - length u) 0)"
    by (rule write_at_prefix) (use assms(2,7) in auto)
  have w3: "write_at ((iv @ u) @ replicate (?n - length u) 0) (?iv + length u) f
      = Inr (((iv @ u) @ f) @ replicate (?n - length u - length f) 0)"
    by (rule write_at_prefix) (use assms(2,7) in auto)
  have w4: "write_at (((iv @ u) @ f) @ replicate (?n - length u - length f) 0)
        (?iv + length u + length f) tag
      = Inr ((((iv @ u) @ f) @ tag) @ replicate (?n - length u - length f - length tag) 0)"
    by (rule write_at_prefix) (use assms(2,7,8) in auto)
  have "taglen = 0 \<Longrightarrow> tag = []" using assms(8) by simp
  then show ?thesis
    unfolding encrypt_openssl_def Let_def
    using assms(1,3-6,8,9) w1 w2 w3 w4
    by (cases "taglen = 0")
      (simp_all add: resize_prefix assms(2) flip: append_assoc del: append_assoc)
qed

text \<open>On an input that is long enough, decryption works on the three parts of the layout.\<close>

lemma decrypt_openssl_split:
  assumes "length iv = evp_iv_length E c" and "length tag = taglen" and "length ct < 2 ^ 31"
  shows "decrypt_openssl E c taglen (iv @ ct @ tag) behind key =
    (let inl = int (length ct); output = replicate (length ct + evp_block_size E c) 0 in
     ebind (require (evp_decrypt_init E c key iv)
       (Runtime_Error (str ''Could not initialise decryption context''))) (\<lambda>_.
     ebind (or_throw (evp_decrypt_update E c key iv ct inl)
       (Runtime_Error (str ''Could not decrypt block''))) (\<lambda>u.
     ebind (write_at output 0 u) (\<lambda>output.
     ebind (require (taglen = 0 \<or> evp_set_tag E c taglen tag)
       (Runtime_Error (str ''Could not set decryption tag''))) (\<lambda>_.
     ebind (or_throw (evp_decrypt_final E c key iv ct inl (if taglen = 0 then None else Some tag))
       (Runtime_Error (str ''Could not finalise decryption''))) (\<lambda>f.
     ebind (write_at output (length u) f) (\<lambda>output.
     Inr (resize (length u + length f) output))))))))"
proof -
  have "tag = [] \<longleftrightarrow> taglen = 0" using assms(2) by auto
  then show ?thesis
    using assms(2,3) by (simp add: decrypt_openssl_def Let_def flip: assms(1))
qed

lemma decrypt_openssl_layout:
  assumes "length iv = evp_iv_length E c" and "length tag = taglen"
    and "length ct < 2 ^ 31"
    and "evp_decrypt_init E c key iv"
    and "evp_decrypt_update E c key iv ct (int (length ct)) = Some u"
    and "0 < taglen \<Longrightarrow> evp_set_tag E c taglen tag"
    and "evp_decrypt_final E c key iv ct (int (length ct))
           (if taglen = 0 then None else Some tag) = Some f"
    and "length u + length f \<le> length ct + evp_block_size E c"
  shows "decrypt_openssl E c taglen (iv @ ct @ tag) behind key = Inr (u @ f)"
proof -
  let ?n = "length ct + evp_block_size E c"
  have w1: "write_at (replicate ?n 0) 0 u = Inr (u @ replicate (?n - length u) 0)"
    using assms(8) by (simp add: write_at_start)
  have w2: "write_at (u @ replicate (?n - length u) 0) (length u) f
      = Inr ((u @ f) @ replicate (?n - length u - length f) 0)"
    by (rule write_at_prefix) (use assms(8) in auto)
  have "taglen = 0 \<or> evp_set_tag E c taglen tag" using assms(6) by auto
  then show ?thesis
    using assms(4,5,7) w1 w2
    by (simp only: decrypt_openssl_split [OF assms(1-3)] Let_def require_simps or_throw_simps
        ebind_simps) (simp add: resize_prefix2)
qed

lemma evp_ok_roundtrip:
  assumes "evp_ok E c taglen" and "length key = 32" and "length m + evp_block_size E c < 2 ^ 31"
    and "random_ok N"
  shows "\<exists>ct r'. encrypt_openssl N E c taglen m key r = (Inr ct, r') \<and>
    decrypt_openssl E c taglen ct [] key = Inr m \<and>
    length ct \<le> evp_iv_length E c + length m + evp_block_size E c + taglen"
proof -
  obtain iv r' where iv: "na_randombytes N (evp_iv_length E c) r = (iv, r')" by fastforce
  then have len: "length iv = evp_iv_length E c"
    using random_okD(1) [OF assms(4), of "evp_iv_length E c" r] by simp
  then have "evp_encrypts E c taglen key iv m"
    using assms(1-3) by (simp add: evp_ok_def)
  then obtain u f tag u' f' where *:
      "evp_encrypt_init E c key iv"
      "evp_encrypt_update E c key iv m (int (length m)) = Some u"
      "evp_encrypt_final E c key iv m (int (length m)) = Some f"
      "length u + length f \<le> length m + evp_block_size E c"
      "length tag = taglen"
      "0 < taglen \<Longrightarrow> evp_get_tag E c key iv m (int (length m)) taglen = Some tag"
      "0 < taglen \<Longrightarrow> evp_set_tag E c taglen tag"
      "evp_decrypt_init E c key iv"
      "evp_decrypt_update E c key iv (u @ f) (int (length (u @ f))) = Some u'"
      "evp_decrypt_final E c key iv (u @ f) (int (length (u @ f)))
         (if taglen = 0 then None else Some tag) = Some f'"
      "m = u' @ f'"
    unfolding evp_encrypts_def by blast
  have bound: "length u' + length f' \<le> length (u @ f) + evp_block_size E c"
    using assms(1) *(9,10) unfolding evp_ok_def evp_decrypt_bounded_def by blast
  have "encrypt_openssl N E c taglen m key r = (Inr (iv @ (u @ f) @ tag), r')"
    by (rule encrypt_openssl_layout [OF iv len]) (use * assms(3) in simp_all)
  moreover have "decrypt_openssl E c taglen (iv @ (u @ f) @ tag) [] key = Inr (u' @ f')"
    by (rule decrypt_openssl_layout) (use * len assms(3) bound in simp_all)
  ultimately show ?thesis using * len by auto
qed

lemma decrypt_openssl_too_short:
  assumes "\<not> taglen \<le> length (drop (length (take (evp_iv_length E c) s)) s)"
  shows "decrypt_openssl E c taglen s behind key = Inl (Runtime_Error (str ''Encrypted value is too short''))"
  using assms by (simp only: decrypt_openssl_def Let_def) simp

text \<open>
  A view shorter than the iv, without a tag: what is decrypted is the empty message, under the iv
  read through the end of the view.
\<close>

lemma decrypt_openssl_short:
  assumes "length s < evp_iv_length E c" and "evp_iv_length E c \<le> length s + length behind"
  shows "decrypt_openssl E c 0 s behind key =
    decrypt_openssl E c 0 (take (evp_iv_length E c) (s @ behind)) [] key"
  using assms by (simp add: decrypt_openssl_def Let_def min_def del: take_append)

text \<open>Decryption of arbitrary bytes stays defined as long as a whole iv can be read.\<close>

lemma decrypt_openssl_long_defined:
  assumes "evp_decrypt_bounded E c" and "length s < 2 ^ 31"
    and "evp_iv_length E c + taglen \<le> length s"
  shows "is_defined (decrypt_openssl E c taglen s behind key)"
proof -
  obtain iv ct tag where split: "s = iv @ ct @ tag"
    and len: "length iv = evp_iv_length E c" "length tag = taglen"
    using assms(3) by (rule three_parts)
  have bounds: "length u \<le> length ct + evp_block_size E c \<and>
      (\<forall>t f. evp_decrypt_final E c key iv ct (int (length ct)) t = Some f \<longrightarrow>
        length u + length f \<le> length ct + evp_block_size E c)"
    if "evp_decrypt_update E c key iv ct (int (length ct)) = Some u" for u
    using assms(1) that unfolding evp_decrypt_bounded_def by blast
  have "length ct < 2 ^ 31" using assms(2) split by simp
  then show ?thesis
    by (subst split, subst decrypt_openssl_split [OF len], simp, unfold Let_def)
      (intro ebind_defined; use bounds in \<open>fastforce dest: write_at_length\<close>)
qed

lemma decrypt_openssl_defined:
  assumes "evp_decrypt_bounded E c" and "length s + length behind < 2 ^ 31"
    and "0 < taglen \<or> evp_iv_length E c \<le> length s + length behind"
  shows "is_defined (decrypt_openssl E c taglen s behind key)"
proof (cases "evp_iv_length E c + taglen \<le> length s")
  case True
  then show ?thesis using assms(1,2) by (intro decrypt_openssl_long_defined) simp_all
next
  case False
  show ?thesis
  proof (cases "taglen = 0")
    case True
    with False assms(3) have short: "length s < evp_iv_length E c"
      and iv: "evp_iv_length E c \<le> length (s @ behind)" by simp_all
    have "is_defined (decrypt_openssl E c 0 (take (evp_iv_length E c) (s @ behind)) [] key)"
      using assms(1,2) iv
      by (intro decrypt_openssl_long_defined) (simp_all del: take_append)
    then show ?thesis
      using True iv by (simp add: decrypt_openssl_short [OF short] del: take_append)
  next
    case False
    with \<open>\<not> evp_iv_length E c + taglen \<le> length s\<close>
    have "\<not> taglen \<le> length (drop (length (take (evp_iv_length E c) s)) s)" by auto
    then show ?thesis by (simp add: decrypt_openssl_too_short)
  qed
qed

subsection \<open>Lemmas: the keys of the two ends agree\<close>

text \<open>
  Two ends of one conversation: honest keypairs, one of them the server.
\<close>

definition channel_peers :: "'r sodium \<Rightarrow> channel \<Rightarrow> channel \<Rightarrow> bool" where
  "channel_peers N a b \<longleftrightarrow>
     server a \<noteq> server b \<and>
     length (private_key a) = 32 \<and> public_key a = na_scalarmult_base N (private_key a) \<and>
     length (private_key b) = 32 \<and> public_key b = na_scalarmult_base N (private_key b)"

lemma channel_peers_sym: "channel_peers N a b \<Longrightarrow> channel_peers N b a"
  by (auto simp: channel_peers_def)

lemma shared_secret_agree:
  assumes "dh_ok N" and "channel_peers N a b"
  obtains q where "na_scalarmult N (private_key a) (public_key b) = Some q"
    and "na_scalarmult N (private_key b) (public_key a) = Some q" and "length q = 32"
  using assms unfolding dh_ok_def channel_peers_def by (metis option.exhaust)

lemma symmetric_key_agree:
  assumes "dh_ok N" and "hash_ok N" and "channel_peers N a b"
  obtains k where "derive_symmetric_key N (private_key a) (public_key b) = Inr k"
    and "derive_symmetric_key N (private_key b) (public_key a) = Inr k" and "length k = 32"
proof -
  obtain q where "na_scalarmult N (private_key a) (public_key b) = Some q"
      "na_scalarmult N (private_key b) (public_key a) = Some q"
    using assms(1,3) by (rule shared_secret_agree)
  then show ?thesis
    using that [of "na_hmacsha256 N salt [q]"] assms(2)
    by (simp add: derive_symmetric_key_def calculate_shared_secret_def hash_ok_def)
qed

lemma xchacha20_key_agree:
  assumes "dh_ok N" and "channel_peers N a b"
  obtains k where
    "xchacha20_shared_key N (public_key a) (private_key a) (public_key b) (\<not> server a) = Inr k"
    and "xchacha20_shared_key N (public_key b) (private_key b) (public_key a) (\<not> server b) = Inr k"
proof -
  obtain q where q: "na_scalarmult N (private_key a) (public_key b) = Some q"
      "na_scalarmult N (private_key b) (public_key a) = Some q"
    using assms by (rule shared_secret_agree)
  have "server b = (\<not> server a)" using assms(2) by (auto simp: channel_peers_def)
  with q show ?thesis
    by (intro that [of "na_generichash N 32 []
        [q, if server a then public_key b else public_key a,
            if server a then public_key a else public_key b]"])
      (auto simp: xchacha20_shared_key_def)
qed

subsection \<open>Lemmas: the libsodium wrapper\<close>

lemma encrypt_xchacha20_layout:
  assumes "xchacha20_shared_key N (public_key c) (private_key c) pk (\<not> server c) = Inr k"
    and "na_randombytes N NPUBBYTES r = (nonce, r')" and "length nonce = NPUBBYTES"
    and "length (na_xchacha_encrypt N k nonce m) = length m + ABYTES"
  shows "encrypt_xchacha20 N c m pk r = (Inr (nonce @ na_xchacha_encrypt N k nonce m), r')"
proof -
  let ?box = "na_xchacha_encrypt N k nonce m"
  have w1: "write_at (replicate (NPUBBYTES + length m + ABYTES) 0) 0 nonce
      = Inr (nonce @ replicate (length m + ABYTES) 0)"
    using assms(3) by (simp add: write_at_start)
  have w2: "write_at (nonce @ replicate (length m + ABYTES) 0) NPUBBYTES ?box
      = Inr ((nonce @ ?box) @ replicate 0 0)"
    using write_at_prefix [of nonce NPUBBYTES ?box "length m + ABYTES"] assms(3,4) by simp
  show ?thesis
    unfolding encrypt_xchacha20_def Let_def
    using assms w1 w2 by (simp add: resize_def del: append_assoc)
qed

lemma decrypt_xchacha20_layout:
  assumes "xchacha20_shared_key N (public_key c) (private_key c) pk (\<not> server c) = Inr k"
    and "length nonce = NPUBBYTES" and "na_xchacha_decrypt N k nonce box = Some m"
    and "length box = length m + ABYTES"
  shows "decrypt_xchacha20 N c (nonce @ box) behind pk = Inr m"
  using assms by (simp add: decrypt_xchacha20_def Let_def write_at_full resize_def)

lemma xchacha20_roundtrip:
  assumes "sodium_ok N" and "channel_peers N a b"
  shows "\<exists>ct r'. encrypt_xchacha20 N a m (public_key b) r = (Inr ct, r') \<and>
    decrypt_xchacha20 N b ct [] (public_key a) = Inr m \<and> length ct = length m + 40"
proof -
  obtain k where k:
      "xchacha20_shared_key N (public_key a) (private_key a) (public_key b) (\<not> server a) = Inr k"
      "xchacha20_shared_key N (public_key b) (private_key b) (public_key a) (\<not> server b) = Inr k"
    using xchacha20_key_agree assms unfolding sodium_ok_def by metis
  obtain nonce r' where n: "na_randombytes N NPUBBYTES r = (nonce, r')" by fastforce
  then have len: "length nonce = NPUBBYTES"
    using random_okD(1) [of N NPUBBYTES r] assms(1) by (simp add: sodium_ok_def)
  have box: "length (na_xchacha_encrypt N k nonce m) = length m + ABYTES"
      "na_xchacha_decrypt N k nonce (na_xchacha_encrypt N k nonce m) = Some m"
    using assms(1) by (simp_all add: sodium_ok_def aead_ok_def ABYTES_def)
  then show ?thesis
    using encrypt_xchacha20_layout [OF k(1) n len box(1)]
      decrypt_xchacha20_layout [OF k(2) len box(2,1)] len
    by (simp add: NPUBBYTES_def ABYTES_def)
qed

text \<open>Decryption of arbitrary bytes is defined: a short nonce implies a short rest.\<close>

lemma decrypt_xchacha20_defined:
  assumes "aead_ok N"
  shows "is_defined (decrypt_xchacha20 N c s behind pk)"
proof -
  have len: "length m = length ct - 16" if "na_xchacha_decrypt N k n ct = Some m" for k n ct m
    using assms that by (simp add: aead_ok_def)
  show ?thesis
    unfolding decrypt_xchacha20_def Let_def
    by (intro ebind_defined)
      (auto dest: len simp: NPUBBYTES_def ABYTES_def xchacha20_shared_key_def write_at_def ebind_def or_throw_def
        split: sum.splits option.splits if_splits)
qed

subsection \<open>Lemmas: AES\<close>

lemma openssl_okD:
  assumes "openssl_ok E"
  shows "evp_ok E EVP_aes_256_cbc 0" "evp_ok E EVP_aes_256_gcm 16"
    "evp_iv_length E EVP_aes_256_cbc = 16" "evp_block_size E EVP_aes_256_cbc = 16"
    "evp_iv_length E EVP_aes_256_gcm = 12" "evp_block_size E EVP_aes_256_gcm = 1"
  using assms by (simp_all add: openssl_ok_def evp_sizes_ok_def)

lemma gcm_roundtrip:
  assumes "sodium_ok N" and "openssl_ok E" and "channel_peers N a b" and "length m + 1 < 2 ^ 31"
  shows "\<exists>ct r'. encrypt_gcm N E a m (public_key b) r = (Inr ct, r') \<and>
    decrypt_gcm N E b ct [] (public_key a) = Inr m \<and> length ct \<le> length m + 29"
proof -
  obtain k where k: "derive_symmetric_key N (private_key a) (public_key b) = Inr k"
      "derive_symmetric_key N (private_key b) (public_key a) = Inr k" "length k = 32"
    using symmetric_key_agree assms(1,3) unfolding sodium_ok_def by metis
  have "random_ok N" using assms(1) by (simp add: sodium_ok_def)
  from evp_ok_roundtrip [OF openssl_okD(2) [OF assms(2)] k(3) _ this] assms(4) k(1,2)
  show ?thesis
    by (simp add: encrypt_gcm_def decrypt_gcm_def openssl_okD [OF assms(2)] add.commute)
qed

lemma cbc_roundtrip_channel:
  assumes "sodium_ok N" and "openssl_ok E" and "channel_peers N a b" and "length m + 16 < 2 ^ 31"
  shows "\<exists>ct r'. encrypt_cbc N E a m (public_key b) r = (Inr ct, r') \<and>
    decrypt_cbc N E b ct [] (public_key a) = Inr m \<and> length ct \<le> length m + 32"
proof -
  obtain k where k: "na_scalarmult N (private_key a) (public_key b) = Some k"
      "na_scalarmult N (private_key b) (public_key a) = Some k" "length k = 32"
    using shared_secret_agree assms(1,3) unfolding sodium_ok_def by metis
  have "random_ok N" using assms(1) by (simp add: sodium_ok_def)
  from evp_ok_roundtrip [OF openssl_okD(1) [OF assms(2)] k(3) _ this] assms(4) k(1,2)
  show ?thesis
    by (simp add: encrypt_cbc_def decrypt_cbc_def calculate_shared_secret_def
        openssl_okD [OF assms(2)] add.commute)
qed

subsection \<open>The channel, as an interface\<close>

text \<open>
  What the onion maker and the junk parser rely on: what one end seals for its peer, the peer
  opens. \<open>fits\<close> bounds the message, \<open>overhead\<close> what sealing adds.
\<close>

locale sealed_channel =
  fixes ok :: "'l \<Rightarrow> bool"
    and peers :: "'l \<Rightarrow> channel \<Rightarrow> channel \<Rightarrow> bool"
    and seal :: "'l \<Rightarrow> channel \<Rightarrow> bytes \<Rightarrow> x25519_pubkey \<Rightarrow> 'r \<Rightarrow> bytes result \<times> 'r"
    and unseal :: "'l \<Rightarrow> channel \<Rightarrow> bytes \<Rightarrow> x25519_pubkey \<Rightarrow> bytes result"
    and fits :: "nat \<Rightarrow> bool"
    and overhead :: nat
  assumes peers_sym: "peers l a b \<Longrightarrow> peers l b a"
    and seal_unseal: "ok l \<Longrightarrow> peers l a b \<Longrightarrow> fits (length m) \<Longrightarrow>
      \<exists>ct r'. seal l a m (public_key b) r = (Inr ct, r') \<and>
        unseal l b ct (public_key a) = Inr m \<and> length ct \<le> length m + overhead"
begin

lemma opened:
  assumes "ok l" and "peers l a b" and "fits (length m)"
    and "seal l a m (public_key b) r = (Inr ct, r')"
  shows "unseal l b ct (public_key a) = Inr m"
  using seal_unseal [OF assms(1-3), of r] assms(4) by auto

lemma seal_inject:
  assumes "ok l" and "peers l a b" and "fits (length m)" and "fits (length m')"
    and "seal l a m (public_key b) r = (Inr ct, s)"
    and "seal l a m' (public_key b) r' = (Inr ct, s')"
  shows "m = m'"
  using opened [OF assms(1,2,3,5)] opened [OF assms(1,2,4,6)] by simp

text \<open>A request and the reply to it, one after the other on the same generator.\<close>

lemma exchange:
  assumes "ok l" and "peers l a b" and "fits (length m)" and "fits (length n)"
  shows "\<exists>c r1 d r2. seal l a m (public_key b) r = (Inr c, r1) \<and>
    unseal l b c (public_key a) = Inr m \<and>
    seal l b n (public_key a) r1 = (Inr d, r2) \<and> unseal l a d (public_key b) = Inr n"
  using seal_unseal [OF assms(1,2,3), of r] seal_unseal [OF assms(1) peers_sym [OF assms(2)] assms(4)]
  by metis

end

text \<open>Every cipher provides it.\<close>

interpretation xchacha: sealed_channel sodium_ok channel_peers encrypt_xchacha20
  "\<lambda>N c ct. decrypt_xchacha20 N c ct []" "\<lambda>n. True" 40
  by unfold_locales (use channel_peers_sym xchacha20_roundtrip in fastforce)+

interpretation gcm: sealed_channel "\<lambda>(N, E). sodium_ok N \<and> openssl_ok E" "\<lambda>(N, E). channel_peers N"
  "\<lambda>(N, E). encrypt_gcm N E" "\<lambda>(N, E) c ct. decrypt_gcm N E c ct []" "\<lambda>n. n + 1 < 2 ^ 31" 29
  by unfold_locales (use channel_peers_sym gcm_roundtrip in fastforce)+

interpretation cbc: sealed_channel "\<lambda>(N, E). sodium_ok N \<and> openssl_ok E" "\<lambda>(N, E). channel_peers N"
  "\<lambda>(N, E). encrypt_cbc N E" "\<lambda>(N, E) c ct. decrypt_cbc N E c ct []" "\<lambda>n. n + 16 < 2 ^ 31" 32
  by unfold_locales (use channel_peers_sym cbc_roundtrip_channel in fastforce)+

text \<open>So does the dispatching pair, for each type.\<close>

fun message_fits :: "enc_type \<Rightarrow> nat \<Rightarrow> bool" where
  "message_fits xchacha20 n \<longleftrightarrow> True"
| "message_fits aes_gcm n \<longleftrightarrow> n + 1 < 2 ^ 31"
| "message_fits aes_cbc n \<longleftrightarrow> n + 16 < 2 ^ 31"

fun enc_overhead :: "enc_type \<Rightarrow> nat" where
  "enc_overhead xchacha20 = 40"
| "enc_overhead aes_gcm = 29"
| "enc_overhead aes_cbc = 32"

interpretation channel_of: sealed_channel "\<lambda>(N, E). sodium_ok N \<and> openssl_ok E"
  "\<lambda>(N, E). channel_peers N" "\<lambda>(N, E) c. encrypt N E c t" "\<lambda>(N, E) c. decrypt N E c t"
  "message_fits t" "enc_overhead t" for t
proof unfold_locales
  fix l :: "'r sodium \<times> openssl" and a b and m :: bytes and r
  assume "case l of (N, E) \<Rightarrow> sodium_ok N \<and> openssl_ok E" and "(case l of (N, E) \<Rightarrow> channel_peers N) a b"
    and "message_fits t (length m)"
  then show "\<exists>ct r'. (case l of (N, E) \<Rightarrow> \<lambda>c. encrypt N E c t) a m (public_key b) r = (Inr ct, r') \<and>
      (case l of (N, E) \<Rightarrow> \<lambda>c. decrypt N E c t) b ct (public_key a) = Inr m \<and>
      length ct \<le> length m + enc_overhead t"
    using cbc.seal_unseal [of l a b m r] gcm.seal_unseal [of l a b m r]
      xchacha.seal_unseal [of "fst l" a b m r]
    by (cases t; cases l) simp_all
qed (auto intro: channel_peers_sym)

subsection \<open>Lemmas: no input leads to undefined behaviour\<close>

lemma catchable_shared_secret: "is_defined (calculate_shared_secret N sk pk)"
  by (simp add: calculate_shared_secret_def)

lemma derive_symmetric_key_defined: "is_defined (derive_symmetric_key N sk pk)"
  unfolding derive_symmetric_key_def by (intro ebind_defined catchable_shared_secret) simp

lemma shared_secret_length:
  "dh_ok N \<Longrightarrow> calculate_shared_secret N sk pk = Inr k \<Longrightarrow> length k = 32"
  unfolding dh_ok_def calculate_shared_secret_def by (metis or_throw_eq_Inr)

lemma symmetric_key_length:
  "hash_ok N \<Longrightarrow> derive_symmetric_key N sk pk = Inr k \<Longrightarrow> length k = 32"
  by (auto simp: derive_symmetric_key_def hash_ok_def ebind_eq_Inr)

lemma fst_sbind_lift_defined:
  assumes "is_defined m" and "\<And>x. m = Inr x \<Longrightarrow> is_defined (fst (f x r))"
  shows "is_defined (fst (sbind (lift m) f r))"
  using assms by (cases m) auto

lemma encrypt_openssl_defined:
  assumes "evp_ok E c taglen" and "random_ok N" and "length k = 32"
    and "length m + evp_block_size E c < 2 ^ 31"
  shows "is_defined (fst (encrypt_openssl N E c taglen m k r))"
  using evp_ok_roundtrip [OF assms(1,3,4,2), of r] by auto

lemma encrypt_xchacha20_defined:
  assumes "sodium_ok N"
  shows "is_defined (fst (encrypt_xchacha20 N c m pk r))"
proof (cases "xchacha20_shared_key N (public_key c) (private_key c) pk (\<not> server c)")
  case (Inl e)
  then have "catchable e"
    by (cases "na_scalarmult N (private_key c) pk") (auto simp: xchacha20_shared_key_def)
  with Inl show ?thesis by (simp add: encrypt_xchacha20_def Let_def)
next
  case (Inr k)
  obtain nonce r' where n: "na_randombytes N NPUBBYTES r = (nonce, r')" by fastforce
  have "length nonce = NPUBBYTES" "length (na_xchacha_encrypt N k nonce m) = length m + ABYTES"
    using random_okD(1) [of N NPUBBYTES r] assms n
    by (simp_all add: sodium_ok_def aead_ok_def ABYTES_def)
  then show ?thesis
    using encrypt_xchacha20_layout [OF Inr n] by simp
qed

lemma decrypt_in_defined:
  assumes "sodium_ok N" and "openssl_ok E" and "length s + length behind < 2 ^ 31"
    and "t = aes_cbc \<Longrightarrow> 16 \<le> length s + length behind"
  shows "is_defined (decrypt_in N E c t s behind pk)"
proof (cases t)
  case xchacha20
  then show ?thesis using assms(1) by (simp add: sodium_ok_def decrypt_xchacha20_defined)
next
  case aes_gcm
  then show ?thesis
    using openssl_okD(2) [OF assms(2)] assms(3)
    by (auto simp: decrypt_gcm_def evp_ok_def
        intro!: ebind_defined derive_symmetric_key_defined decrypt_openssl_defined)
next
  case aes_cbc
  then show ?thesis
    using openssl_okD(1,3) [OF assms(2)] assms(3,4)
    by (auto simp: decrypt_cbc_def evp_ok_def
        intro!: ebind_defined catchable_shared_secret decrypt_openssl_defined)
qed

lemma decrypt_defined:
  assumes "sodium_ok N" and "openssl_ok E" and "length s < 2 ^ 31"
    and "t = aes_cbc \<Longrightarrow> 16 \<le> length s"
  shows "is_defined (decrypt N E c t s pk)"
  unfolding decrypt_def using assms by (intro decrypt_in_defined) simp_all

text \<open>
  What lies behind a view never matters to a decryption that succeeds without it: a long enough
  nonce or iv is read from the view alone.
\<close>

lemma decrypt_in_opened:
  assumes "decrypt N E c t ct pk = Inr m"
  shows "decrypt_in N E c t ct behind pk = Inr m"
proof -
  have "decrypt_openssl E ci taglen ct behind k = Inr m"
    if "decrypt_openssl E ci taglen ct [] k = Inr m" for ci taglen k
    using that by (auto simp: decrypt_openssl_def Let_def ebind_eq_Inr require_eq_Inr min_def
        split: if_splits)
  then show ?thesis
    using assms by (cases t) (auto simp: decrypt_def decrypt_xchacha20_def decrypt_gcm_def
        decrypt_cbc_def Let_def ebind_eq_Inr require_eq_Inr min_def split: if_splits)
qed

text \<open>Who can open what came from a key can also seal for it: both need the same shared secret.\<close>

lemma opened_can_seal:
  assumes "sodium_ok N" and "openssl_ok E" and "decrypt_in N E c t ct behind pk = Inr m"
    and "message_fits t (length reply)"
  shows "\<exists>d r'. encrypt N E c t reply pk r = (Inr d, r')"
proof (cases t)
  case xchacha20
  obtain k where k: "xchacha20_shared_key N (public_key c) (private_key c) pk (\<not> server c) = Inr k"
    using assms(3) by (auto simp: xchacha20 decrypt_xchacha20_def Let_def ebind_eq_Inr)
  obtain nonce r' where n: "na_randombytes N NPUBBYTES r = (nonce, r')" by fastforce
  have "length nonce = NPUBBYTES" "length (na_xchacha_encrypt N k nonce reply) = length reply + ABYTES"
    using random_okD(1) [of N NPUBBYTES r] assms(1) n by (simp_all add: sodium_ok_def aead_ok_def ABYTES_def)
  then show ?thesis
    using encrypt_xchacha20_layout [OF k n] by (simp add: xchacha20)
next
  case aes_gcm
  then obtain k where k: "derive_symmetric_key N (private_key c) pk = Inr k"
    using assms(3) by (auto simp: decrypt_gcm_def ebind_eq_Inr)
  then have "length k = 32" using assms(1) symmetric_key_length by (auto simp: sodium_ok_def)
  from evp_ok_roundtrip [OF openssl_okD(2) [OF assms(2)] this, of reply N r] show ?thesis
    using assms(1,4) aes_gcm k by (auto simp: encrypt_gcm_def openssl_okD [OF assms(2)] sodium_ok_def)
next
  case aes_cbc
  then obtain k where k: "calculate_shared_secret N (private_key c) pk = Inr k"
    using assms(3) by (auto simp: decrypt_cbc_def ebind_eq_Inr)
  then have "length k = 32" using assms(1) shared_secret_length by (auto simp: sodium_ok_def)
  from evp_ok_roundtrip [OF openssl_okD(1) [OF assms(2)] this, of reply N r] show ?thesis
    using assms(1,4) aes_cbc k by (auto simp: encrypt_cbc_def openssl_okD [OF assms(2)] sodium_ok_def)
qed

subsection \<open>Properties\<close>

definition ref_client :: channel where
  "ref_client = \<lparr>private_key = replicate 32 3, public_key = ref_public (replicate 32 3), server = False\<rparr>"

definition ref_server :: channel where
  "ref_server = \<lparr>private_key = replicate 32 5, public_key = ref_public (replicate 32 5), server = True\<rparr>"

lemma ref_peers: "channel_peers ref_sodium ref_client ref_server"
  by (simp add: channel_peers_def ref_client_def ref_server_def ref_sodium_def)

text \<open>
  \<open>parse_enc_type\<close> accepts exactly the printed name of each type and its one documented
  alias, and throws, quoting the text, on anything else.
\<close>

theorem parse_enc_type_exact:
  "parse_enc_type s =
    (if s \<in> {enc_type_string xchacha20, str ''xchacha20-poly1305''} then Inr xchacha20
     else if s \<in> {enc_type_string aes_gcm, str ''gcm''} then Inr aes_gcm
     else if s \<in> {enc_type_string aes_cbc, str ''cbc''} then Inr aes_cbc
     else Inl (Runtime_Error (str ''Invalid encryption type '' @ s))) \<and>
   parse_enc_type (enc_type_string t) = Inr t"
  by (simp add: parse_enc_type_string) (simp add: parse_enc_type_def)

text \<open>
  C7. For each of the three encryption types, what one end of a channel encrypts for its peer
  succeeds and the peer's \<open>decrypt\<close> returns it, with a bounded growth, whichever of the two is
  the server. AES messages must fit the \<open>int\<close> OpenSSL takes.
\<close>

theorem channel_roundtrip:
  assumes "sodium_ok N" and "openssl_ok E" and "channel_peers N a b" and "message_fits t (length m)"
  shows "\<exists>ct r'. encrypt N E a t m (public_key b) r = (Inr ct, r') \<and>
    decrypt N E b t ct (public_key a) = Inr m \<and> length ct \<le> length m + enc_overhead t"
  using channel_of.seal_unseal [of "(N, E)" a b t m r] assms by simp

theorem channel_roundtrip_witness:
  "\<exists>ct r'. encrypt ref_sodium ref_openssl ref_client aes_gcm (str ''hello'') (public_key ref_server) 7
      = (Inr ct, r') \<and>
    decrypt ref_sodium ref_openssl ref_server aes_gcm ct (public_key ref_client)
      = Inr (str ''hello'') \<and> length ct \<le> length (str ''hello'') + enc_overhead aes_gcm"
  by (rule channel_roundtrip) (simp_all add: ref_sodium_ok ref_openssl_ok ref_peers str_def)

text \<open>
  XChaCha20: client and server derive the same key, the hash of the shared secret, the
  client's public key and the server's public key in this order on both sides.
\<close>

theorem xchacha20_key_order:
  assumes "dh_ok N" and "channel_peers N a b" and "\<not> server a"
  shows "\<exists>q. na_scalarmult N (private_key a) (public_key b) = Some q \<and>
    xchacha20_shared_key N (public_key a) (private_key a) (public_key b) (\<not> server a)
      = Inr (na_generichash N 32 [] [q, public_key a, public_key b]) \<and>
    xchacha20_shared_key N (public_key b) (private_key b) (public_key a) (\<not> server b)
      = Inr (na_generichash N 32 [] [q, public_key a, public_key b])"
proof -
  obtain q where "na_scalarmult N (private_key a) (public_key b) = Some q"
      "na_scalarmult N (private_key b) (public_key a) = Some q"
    using assms(1,2) by (rule shared_secret_agree)
  moreover have "server b" using assms(2,3) by (simp add: channel_peers_def)
  ultimately show ?thesis using assms(3) by (simp add: xchacha20_shared_key_def)
qed

theorem xchacha20_key_order_witness:
  "\<exists>q. na_scalarmult ref_sodium (private_key ref_client) (public_key ref_server) = Some q \<and>
    xchacha20_shared_key ref_sodium (public_key ref_client) (private_key ref_client)
      (public_key ref_server) (\<not> server ref_client)
      = Inr (na_generichash ref_sodium 32 [] [q, public_key ref_client, public_key ref_server]) \<and>
    xchacha20_shared_key ref_sodium (public_key ref_server) (private_key ref_server)
      (public_key ref_client) (\<not> server ref_server)
      = Inr (na_generichash ref_sodium 32 [] [q, public_key ref_client, public_key ref_server])"
  by (rule xchacha20_key_order)
    (use ref_sodium_ok ref_peers in \<open>simp_all add: sodium_ok_def ref_client_def\<close>)

text \<open>
  C34. Encryption never writes past its output buffer, never trips its assertion and never aborts,
  whatever the peer's public key is: it returns a ciphertext or throws a catchable exception.
\<close>

theorem encrypt_safe:
  assumes "sodium_ok N" and "openssl_ok E" and "message_fits t (length m)"
  shows "is_defined (fst (encrypt N E c t m pk r))"
proof (cases t)
  case xchacha20
  then show ?thesis using encrypt_xchacha20_defined [OF assms(1)] by simp
next
  case aes_gcm
  then show ?thesis
    using assms openssl_okD [OF assms(2)]
    by (auto simp: encrypt_gcm_def sodium_ok_def dest: symmetric_key_length
        intro!: fst_sbind_lift_defined derive_symmetric_key_defined encrypt_openssl_defined)
next
  case aes_cbc
  then show ?thesis
    using assms openssl_okD [OF assms(2)]
    by (auto simp: encrypt_cbc_def sodium_ok_def dest: shared_secret_length
        intro!: fst_sbind_lift_defined catchable_shared_secret encrypt_openssl_defined)
qed

theorem encrypt_safe_witness:
  "is_defined (fst (encrypt ref_sodium ref_openssl ref_client aes_gcm [1, 2] [] 0))"
  by (rule encrypt_safe) (simp_all add: ref_sodium_ok ref_openssl_ok)

text \<open>
  C10. Decryption of arbitrary bytes from the network under XChaCha20 or AES-GCM, and under
  AES-CBC when at least an iv's worth of bytes is there, never reads or writes out of bounds and
  never aborts: it returns a plaintext or throws a catchable exception.
\<close>

theorem decrypt_safe:
  assumes "sodium_ok N" and "openssl_ok E" and "length s < 2 ^ 31"
    and "t = aes_cbc \<Longrightarrow> 16 \<le> length s"
  shows "is_defined (decrypt N E c t s pk)"
  using assms by (rule decrypt_defined)

theorem decrypt_safe_witness:
  "is_defined (decrypt ref_sodium ref_openssl ref_server aes_gcm [1, 2, 3] (public_key ref_client))"
  by (rule decrypt_safe) (simp_all add: ref_sodium_ok ref_openssl_ok)

text \<open>
  AES-CBC lacks that guarantee: on a ciphertext shorter than the 16-byte iv the length check
  passes (there is no tag) and the iv is read past the end of the ciphertext.
\<close>

theorem decrypt_cbc_short_iv:
  assumes "evp_sizes_ok E" and "na_scalarmult N (private_key c) pk = Some k" and "length s < 16"
  shows "decrypt N E c aes_cbc s pk = Inl (Undefined ''iv read past the end of the ciphertext'')"
  using assms
  by (simp add: decrypt_cbc_def calculate_shared_secret_def decrypt_openssl_def Let_def evp_sizes_ok_def)

theorem decrypt_cbc_short_iv_witness:
  "decrypt ref_sodium ref_openssl ref_server aes_cbc [1, 2, 3] (public_key ref_client)
    = Inl (Undefined ''iv read past the end of the ciphertext'')"
proof -
  obtain k where "na_scalarmult ref_sodium (private_key ref_server) (public_key ref_client) = Some k"
    using shared_secret_agree [OF _ ref_peers] ref_sodium_ok by (auto simp: sodium_ok_def)
  then show ?thesis
    by (intro decrypt_cbc_short_iv) (use ref_openssl_ok in \<open>simp_all add: openssl_ok_def\<close>)
qed

text \<open>
  Ciphertexts too short to hold nonce and tag are refused with the documented exception:
  under 40 bytes for XChaCha20 before any key is computed, under 28 bytes for AES-GCM.
\<close>

theorem decrypt_too_short:
  assumes "evp_sizes_ok E"
  shows "(length s < 40 \<longrightarrow>
      decrypt N E c xchacha20 s pk = Inl (Runtime_Error (str ''Invalid ciphertext: too short''))) \<and>
    (length s < 28 \<longrightarrow> na_scalarmult N (private_key c) pk \<noteq> None \<longrightarrow>
      decrypt N E c aes_gcm s pk = Inl (Runtime_Error (str ''Encrypted value is too short'')))"
proof (intro conjI impI)
  assume "length s < 40"
  then have "\<not> ABYTES \<le> length (drop (length (take NPUBBYTES s)) s)"
    by (simp add: NPUBBYTES_def ABYTES_def)
  then show "decrypt N E c xchacha20 s pk = Inl (Runtime_Error (str ''Invalid ciphertext: too short''))"
    by (simp only: decrypt_simps decrypt_xchacha20_def Let_def) simp
next
  assume "length s < 28" and dh: "na_scalarmult N (private_key c) pk \<noteq> None"
  then have "decrypt_openssl E EVP_aes_256_gcm 16 s [] key
      = Inl (Runtime_Error (str ''Encrypted value is too short''))" for key
    using assms by (intro decrypt_openssl_too_short) (simp add: evp_sizes_ok_def)
  with dh show "decrypt N E c aes_gcm s pk = Inl (Runtime_Error (str ''Encrypted value is too short''))"
    by (auto simp: decrypt_gcm_def derive_symmetric_key_def calculate_shared_secret_def)
qed

theorem decrypt_too_short_witness:
  "decrypt ref_sodium ref_openssl ref_server xchacha20 [1, 2] []
    = Inl (Runtime_Error (str ''Invalid ciphertext: too short''))"
  using decrypt_too_short [of ref_openssl "[1, 2]" ref_sodium ref_server "[]"] ref_openssl_ok
  by (simp add: openssl_ok_def)

end
