(* ===== verification/Snode_Info.thy ===== *)
theory Snode_Info
  imports Channel_Encryption
begin

text \<open>
  onionreq/snode_info.hpp, snode_info.cpp, sogs_info.hpp and sogs_info.cpp: what is known of a
  service node and of a SOGS server, the addresses and control data made of it, and the
  construction of a node from json. The constructor fills an object whose keys and ports start
  out indeterminate; that object is the argument \<open>mem\<close>.
\<close>

record snode_info =
  identity :: ed25519_pubkey
  onion :: x25519_pubkey
  publicIP :: bytes
  zmqPort :: "16 word"
  httpsPort :: "16 word"

datatype sogs_protocol = sogs_http | sogs_https

record sogs_info =
  sogs_protocol :: sogs_protocol
  sogs_onion :: x25519_pubkey
  sogs_hostname :: bytes
  sogs_port :: "16 word"

text \<open>Decimal text of a port.\<close>

definition port_string :: "16 word \<Rightarrow> bytes" where
  "port_string p = std_to_string (unat p)"

subsection \<open>From json\<close>

text \<open>oxenc's \<open>from_hex\<close> has no defined result on text that is not hex.\<close>

definition LoadFromHex :: "oxenc \<Rightarrow> bytes \<Rightarrow> bytes \<Rightarrow> bytes result" where
  "LoadFromHex X s out =
     ebind (require (ox_from_hex_size X (length s) \<le> length out)
       (Range_Error (str ''input too big: '' @ std_to_string (length s)
          @ str '' > '' @ std_to_string (length out)))) (\<lambda>_.
     ebind (require (ox_is_hex X s) (Undefined ''from_hex of text that is not hex'')) (\<lambda>_.
     write_at out 0 (ox_from_hex X s)))"

definition json_string_at :: "'j json_lib \<Rightarrow> 'j \<Rightarrow> bytes \<Rightarrow> bytes result" where
  "json_string_at J obj k =
     ebind (or_throw (js_at J obj k) Json_Error) (\<lambda>j. or_throw (js_get_string J j) Json_Error)"

definition json_uint16_at :: "'j json_lib \<Rightarrow> 'j \<Rightarrow> bytes \<Rightarrow> 16 word result" where
  "json_uint16_at J obj k =
     ebind (or_throw (js_at J obj k) Json_Error) (\<lambda>j. or_throw (js_get_uint16 J j) Json_Error)"

definition snode_info_of_json ::
    "oxenc \<Rightarrow> 'j json_lib \<Rightarrow> snode_info \<Rightarrow> 'j \<Rightarrow> snode_info result" where
  "snode_info_of_json X J mem obj =
     ebind (json_string_at J obj (str ''pubkey_ed25519'')) (\<lambda>s.
     ebind (LoadFromHex X s (identity mem)) (\<lambda>identity'.
     ebind (json_string_at J obj (str ''pubkey_x25519'')) (\<lambda>s.
     ebind (LoadFromHex X s (onion mem)) (\<lambda>onion'.
     ebind (json_string_at J obj (str ''public_ip'')) (\<lambda>ip.
     ebind (json_uint16_at J obj (str ''storage_lmq_port'')) (\<lambda>zmq.
     ebind (json_uint16_at J obj (str ''storage_port'')) (\<lambda>https.
     Inr (mem\<lparr>identity := identity', onion := onion', publicIP := ip,
              zmqPort := zmq, httpsPort := https\<rparr>))))))))"

subsection \<open>Addresses\<close>

definition SNodeAddr :: "oxenc \<Rightarrow> snode_info \<Rightarrow> bytes" where
  "SNodeAddr X n = str ''curve://'' @ ox_to_base32z X (identity n) @ str ''.snode:''
     @ port_string (zmqPort n) @ str ''/'' @ ox_to_hex X (onion n)"

definition DirectAddr :: "oxenc \<Rightarrow> snode_info \<Rightarrow> bytes" where
  "DirectAddr X n = str ''curve://'' @ publicIP n @ str '':'' @ port_string (zmqPort n)
     @ str ''/'' @ ox_to_hex X (onion n)"

definition HttpsSNode :: "oxenc \<Rightarrow> snode_info \<Rightarrow> bytes" where
  "HttpsSNode X n = str ''https://'' @ ox_to_base32z X (identity n) @ str '':''
     @ port_string (httpsPort n) @ str ''/onion_req/v2''"

definition HttpsDirect :: "snode_info \<Rightarrow> bytes" where
  "HttpsDirect n = str ''https://'' @ publicIP n @ str '':'' @ port_string (httpsPort n)
     @ str ''/onion_req/v2''"

definition snode_ControlData :: "'j json_lib \<Rightarrow> snode_info \<Rightarrow> 'j" where
  "snode_ControlData J n = js_object J [(str ''headers'', js_braces J)]"

definition snode_ToString :: "snode_info \<Rightarrow> bytes" where
  "snode_ToString n = str ''[snode '' @ publicIP n @ str '':'' @ port_string (httpsPort n) @ str '']''"

definition sogs_ControlData :: "'j json_lib \<Rightarrow> sogs_info \<Rightarrow> 'j" where
  "sogs_ControlData J s = js_object J
     [(str ''host'', js_string J (sogs_hostname s)),
      (str ''port'', js_uint16 J (sogs_port s)),
      (str ''target'', js_string J (str ''/loki/v3/lsrpc''))]"

definition sogs_ToString :: "sogs_info \<Rightarrow> bytes" where
  "sogs_ToString s = str ''[sogs: '' @ sogs_hostname s @ str '':'' @ port_string (sogs_port s) @ str '']''"

subsection \<open>Equality and hash\<close>

text \<open>\<open>operator==\<close> and \<open>std::hash<SNodeInfo>\<close> look at the identity key alone.\<close>

definition snode_eq :: "snode_info \<Rightarrow> snode_info \<Rightarrow> bool" where
  "snode_eq a b \<longleftrightarrow> identity a = identity b"

definition hash_snode :: "snode_info \<Rightarrow> 64 word" where
  "hash_snode n = hash_pubkey (identity n)"

subsection \<open>Lemmas\<close>

lemma port_string_inject: "port_string p = port_string q \<longleftrightarrow> p = q"
  by (simp add: port_string_def std_to_string_inject word_unat_eq_iff)

lemma port_string_not_colon: "58 \<notin> set (port_string p)"
  using std_to_string_digits [of 58] by (auto simp: port_string_def)

lemma split_last_unique:
  assumes "x @ [c] @ y = x' @ [c] @ y'" and "c \<notin> set y" and "c \<notin> set y'"
  shows "x = x' \<and> y = y'"
proof -
  have "takeWhile (\<lambda>b. b \<noteq> c) (rev (x @ [c] @ y)) = rev y"
      "takeWhile (\<lambda>b. b \<noteq> c) (rev (x' @ [c] @ y')) = rev y'"
    using assms(2,3) by (auto simp: takeWhile_tail intro: takeWhile_append2 [THEN trans])
  with assms(1) have "y = y'" by (metis rev_rev_ident)
  with assms(1) show ?thesis by simp
qed

lemma LoadFromHex_whole:
  assumes "hex_ok X" and "length k = length out"
  shows "LoadFromHex X (ox_to_hex X k) out = Inr k"
  using assms by (simp add: LoadFromHex_def hex_okD write_at_full)

text \<open>Well-typed nodes: both keys have the length of their C++ arrays, whatever the text loaded.\<close>

definition wt_snode :: "snode_info \<Rightarrow> bool" where
  "wt_snode n \<longleftrightarrow> length (identity n) = 32 \<and> length (onion n) = 32"

lemma LoadFromHex_length: "LoadFromHex X s out = Inr k \<Longrightarrow> length k = length out"
  by (auto simp: LoadFromHex_def ebind_eq_Inr dest: write_at_length)

lemma snode_info_of_json_wt:
  "snode_info_of_json X J mem obj = Inr n \<Longrightarrow> wt_snode mem \<Longrightarrow> wt_snode n"
  by (auto simp: snode_info_of_json_def wt_snode_def ebind_eq_Inr dest!: LoadFromHex_length)

lemma LoadFromHex_defined:
  assumes "hex_ok X" and "ox_is_hex X s"
  shows "is_defined (LoadFromHex X s out)"
  using assms hex_okD(5) [OF assms]
  by (auto simp: LoadFromHex_def hex_okD intro!: ebind_defined)

text \<open>What a key is loaded as from hex text that fits: its bytes, and behind them what was there.\<close>

definition hex_over :: "oxenc \<Rightarrow> bytes \<Rightarrow> bytes \<Rightarrow> bytes" where
  "hex_over X s out = ox_from_hex X s @ drop (length s div 2) out"

lemma LoadFromHex_result:
  assumes "hex_ok X" and "LoadFromHex X s out = Inr k"
  shows "ox_is_hex X s \<and> length s \<le> 2 * length out \<and> k = hex_over X s out"
proof -
  have s: "ox_is_hex X s" and w: "write_at out 0 (ox_from_hex X s) = Inr k"
    using assms(2) by (auto simp: LoadFromHex_def ebind_eq_Inr)
  have "length s = 2 * length (ox_from_hex X s)" by (rule hex_okD(5) [OF assms(1) s])
  with w s show ?thesis by (auto simp: write_at_def hex_over_def split: if_splits)
qed

lemma snode_info_of_json_keys:
  assumes "hex_ok X" and "snode_info_of_json X J mem obj = Inr n"
  obtains ed x where "json_string_at J obj (str ''pubkey_ed25519'') = Inr ed"
    and "json_string_at J obj (str ''pubkey_x25519'') = Inr x"
    and "length ed \<le> 2 * length (identity mem)" and "length x \<le> 2 * length (onion mem)"
    and "identity n = hex_over X ed (identity mem)" and "onion n = hex_over X x (onion mem)"
  using assms(2) LoadFromHex_result [OF assms(1)] that
  by (fastforce simp: snode_info_of_json_def ebind_eq_Inr)

lemma json_at_defined:
  "is_defined (json_string_at J obj k)" "is_defined (json_uint16_at J obj k)"
  by (auto simp: json_string_at_def json_uint16_at_def intro!: ebind_defined)

text \<open>
  Loading from json reads the object's members alone; the object whose storage is reused shows
  through only where a key's text is shorter than the key.
\<close>

definition json_describes :: "oxenc \<Rightarrow> 'j json_lib \<Rightarrow> 'j \<Rightarrow> snode_info \<Rightarrow> bool" where
  "json_describes X J obj n \<longleftrightarrow>
     json_string_at J obj (str ''pubkey_ed25519'') = Inr (ox_to_hex X (identity n)) \<and>
     json_string_at J obj (str ''pubkey_x25519'') = Inr (ox_to_hex X (onion n)) \<and>
     json_string_at J obj (str ''public_ip'') = Inr (publicIP n) \<and>
     json_uint16_at J obj (str ''storage_lmq_port'') = Inr (zmqPort n) \<and>
     json_uint16_at J obj (str ''storage_port'') = Inr (httpsPort n)"

subsection \<open>Properties\<close>

definition ref_node :: snode_info where
  "ref_node = \<lparr>identity = replicate 32 2, onion = replicate 32 1, publicIP = str ''10.0.0.1'',
     zmqPort = 22020, httpsPort = 22021\<rparr>"

definition ref_node_json :: jref where
  "ref_node_json = JObj
     [(str ''pubkey_ed25519'', JStr (ref_to_hex (identity ref_node))),
      (str ''pubkey_x25519'', JStr (ref_to_hex (onion ref_node))),
      (str ''public_ip'', JStr (publicIP ref_node)),
      (str ''storage_lmq_port'', JNum (zmqPort ref_node)),
      (str ''storage_port'', JNum (httpsPort ref_node))]"

text \<open>
  Constructing a node from a json object that describes it gives exactly that node, every
  field from the member the service publishes it under, and nothing of the uninitialised object.
\<close>

theorem snode_info_of_json_complete:
  assumes "hex_ok X" and "json_describes X J obj n"
    and "length (identity n) = length (identity mem)" and "length (onion n) = length (onion mem)"
  shows "snode_info_of_json X J mem obj = Inr (n :: snode_info)"
  using assms
  by (simp add: snode_info_of_json_def json_describes_def LoadFromHex_whole)

theorem snode_info_of_json_complete_witness:
  "snode_info_of_json ref_oxenc ref_json (ref_node\<lparr>publicIP := [], zmqPort := 9\<rparr>) ref_node_json
    = Inr ref_node"
proof (rule snode_info_of_json_complete)
  show "json_describes ref_oxenc ref_json ref_node_json ref_node"
    by (simp add: json_describes_def json_string_at_def json_uint16_at_def ref_node_json_def
        ref_json_def ref_oxenc_def str_def)
qed (simp_all add: ref_oxenc_ok)

text \<open>
  A key whose hex text is too short is accepted, and the rest of the key is whatever the
  uninitialised object held: two constructions from the same json can differ.
\<close>

theorem LoadFromHex_short_exposes_memory:
  assumes "hex_ok X" and "length k < length out"
  shows "LoadFromHex X (ox_to_hex X k) out = Inr (k @ drop (length k) out)"
  using assms by (simp add: LoadFromHex_def hex_okD write_at_def)

theorem LoadFromHex_short_exposes_memory_witness:
  "LoadFromHex ref_oxenc (ref_to_hex [1]) [7, 8, 9] = Inr [1, 8, 9] \<and>
   LoadFromHex ref_oxenc (ref_to_hex [1]) [0, 0, 0] = Inr [1, 0, 0]"
  using LoadFromHex_short_exposes_memory [OF ref_oxenc_ok(1), of "[1]" "[7, 8, 9]"]
    LoadFromHex_short_exposes_memory [OF ref_oxenc_ok(1), of "[1]" "[0, 0, 0]"]
  by (simp add: ref_oxenc_def)

text \<open>
  Text that does not fit the key is refused before anything is written: the exception names
  both sizes.
\<close>

theorem LoadFromHex_too_big:
  assumes "hex_ok X"
  shows "(\<exists>k. LoadFromHex X s out = Inl (Range_Error k)) \<longleftrightarrow> length out < length s div 2"
  using assms hex_okD(5) [OF assms, of s]
  by (auto simp: LoadFromHex_def hex_okD write_at_def require_def ebind_def split: if_splits)

theorem LoadFromHex_too_big_witness:
  "(\<exists>k. LoadFromHex ref_oxenc (str ''00112233'') [0, 0, 0] = Inl (Range_Error k)) \<longleftrightarrow>
    length [0 :: byte, 0, 0] < length (str ''00112233'') div 2"
  by (rule LoadFromHex_too_big) (rule ref_oxenc_ok)

text \<open>
  The connection string identifies what it connects to: two nodes with the same \<open>DirectAddr\<close>
  have the same public address, the same port and the same onion key, whatever characters the
  address text holds.
\<close>

theorem DirectAddr_determines:
  assumes "hex_ok X" and "length (onion a) = length (onion b)" and "DirectAddr X a = DirectAddr X b"
  shows "publicIP a = publicIP b \<and> zmqPort a = zmqPort b \<and> onion a = onion b"
proof -
  have "length (ox_to_hex X (onion a)) = length (ox_to_hex X (onion b))"
    using assms(1,2) by (simp add: hex_okD)
  moreover have "(str ''curve://'' @ (publicIP a @ [58] @ port_string (zmqPort a)) @ str ''/'') @ ox_to_hex X (onion a)
      = (str ''curve://'' @ (publicIP b @ [58] @ port_string (zmqPort b)) @ str ''/'') @ ox_to_hex X (onion b)"
    using assms(3) by (simp add: DirectAddr_def str_def)
  ultimately have "ox_to_hex X (onion a) = ox_to_hex X (onion b) \<and>
      str ''curve://'' @ (publicIP a @ [58] @ port_string (zmqPort a)) @ str ''/''
      = str ''curve://'' @ (publicIP b @ [58] @ port_string (zmqPort b)) @ str ''/''"
    by (metis append_eq_append_conv)
  then have hex: "ox_to_hex X (onion a) = ox_to_hex X (onion b)"
    and addr: "publicIP a @ [58] @ port_string (zmqPort a) = publicIP b @ [58] @ port_string (zmqPort b)"
    by (simp_all only: append_same_eq same_append_eq)
  have "onion a = onion b"
    using hex hex_okD(2) [OF assms(1)] by metis
  with split_last_unique [OF addr port_string_not_colon port_string_not_colon] show ?thesis
    by (simp add: port_string_inject)
qed

theorem DirectAddr_determines_witness:
  "publicIP ref_node = publicIP (ref_node\<lparr>httpsPort := 1\<rparr>) \<and>
   zmqPort ref_node = zmqPort (ref_node\<lparr>httpsPort := 1\<rparr>) \<and>
   onion ref_node = onion (ref_node\<lparr>httpsPort := 1\<rparr>)"
  by (rule DirectAddr_determines [OF ref_oxenc_ok(1)]) (simp_all add: DirectAddr_def)

text \<open>
  The lokinet connection string is built on the node's \<open>.snode\<close> address, but the lokinet https
  URL is not: it puts the bare base32z key where the \<open>.snode\<close> host name belongs.
\<close>

theorem HttpsSNode_lacks_suffix:
  "SNodeAddr X n = str ''curve://'' @ snode_address X (identity n) @ str '':''
     @ port_string (zmqPort n) @ str ''/'' @ to_hex X (onion n) \<and>
   HttpsSNode X n \<noteq> str ''https://'' @ snode_address X (identity n) @ str '':''
     @ port_string (httpsPort n) @ str ''/onion_req/v2''"
  by (simp add: SNodeAddr_def HttpsSNode_def snode_address_def to_hex_def str_def)

text \<open>
  The equality the unordered containers use is an equivalence, and equal nodes hash alike, as
  the containers require; nodes that differ only in address or onion key are equal.
\<close>

theorem snode_eq_hash:
  "snode_eq a a \<and> (snode_eq a b \<longleftrightarrow> snode_eq b a) \<and>
   (snode_eq a b \<and> snode_eq b c \<longrightarrow> snode_eq a c) \<and>
   (snode_eq a b \<longrightarrow> hash_snode a = hash_snode b) \<and>
   snode_eq a (a\<lparr>onion := k, publicIP := ip, zmqPort := p, httpsPort := q\<rparr>)"
  by (auto simp: snode_eq_def hash_snode_def)

theorem snode_eq_hash_witness: "hash_snode ref_node = hash_snode (ref_node\<lparr>publicIP := []\<rparr>)"
  using snode_eq_hash [of ref_node "ref_node\<lparr>publicIP := []\<rparr>"] by (simp add: snode_eq_def)

end
