(* ===== verification/Onion.thy ===== *)
theory Onion
  imports Snode_Info
begin

text \<open>
  onionreq/onion.hpp: the remote end, the path to it and the payload made for it. \<open>Edge()\<close> is the
  first hop; on a path without hops it reads past the end of a vector.
\<close>

datatype remote_resource =
    Remote_SNode snode_info
  | Remote_SOGS sogs_info

record onion_path =
  hops :: "snode_info list"
  remote :: remote_resource

record onion_payload =
  ciphertext :: bytes
  path :: onion_path
  maybeDecryptResponse :: "bytes \<Rightarrow> bytes option result"

definition Edge :: "onion_path \<Rightarrow> snode_info result" where
  "Edge p = (case hops p of [] \<Rightarrow> Inl (Undefined ''hops[0] of an empty path'') | h # hs \<Rightarrow> Inr h)"

definition set_Edge :: "snode_info \<Rightarrow> onion_path \<Rightarrow> onion_path result" where
  "set_Edge n p = (case hops p of
      [] \<Rightarrow> Inl (Undefined ''hops[0] of an empty path'')
    | h # hs \<Rightarrow> Inr (p\<lparr>hops := n # hs\<rparr>))"

definition MakeDecrypter :: "onion_payload \<Rightarrow> (bytes option \<Rightarrow> 'a result) \<Rightarrow> bytes \<Rightarrow> 'a result" where
  "MakeDecrypter p handler ct = ebind (maybeDecryptResponse p ct) handler"

text \<open>\<open>std::visit\<close> of \<open>ControlData\<close> and \<open>ToString\<close> over the two kinds of remote.\<close>

fun remote_ControlData :: "'j json_lib \<Rightarrow> remote_resource \<Rightarrow> 'j" where
  "remote_ControlData J (Remote_SNode n) = snode_ControlData J n"
| "remote_ControlData J (Remote_SOGS s) = sogs_ControlData J s"

fun remote_ToString :: "remote_resource \<Rightarrow> bytes" where
  "remote_ToString (Remote_SNode n) = snode_ToString n"
| "remote_ToString (Remote_SOGS s) = sogs_ToString s"

lemma Edge_simps [simp, result_simps]:
  "hops p = h # hs \<Longrightarrow> Edge p = Inr h"
  "hops p = [] \<Longrightarrow> Edge p = Inl (Undefined ''hops[0] of an empty path'')"
  by (simp_all add: Edge_def)

lemma set_Edge_Edge: "set_Edge n p = Inr p' \<Longrightarrow> Edge p' = Inr n \<and> tl (hops p') = tl (hops p)"
  by (auto simp: set_Edge_def Edge_def split: list.splits)

end
