(* ===== verification/Junk.thy ===== *)
theory Junk
  imports Onion
begin

text \<open>
  onionreq/junk.hpp and junk.cpp: a node takes the layer addressed to it off an onion request and
  can encrypt a reply for whoever made the layer.
\<close>

record 'r junk =
  junk_payload :: bytes
  transformReply :: "bytes \<Rightarrow> 'r \<Rightarrow> bytes result \<times> 'r"

definition decode_size :: "oxenc \<Rightarrow> bytes \<Rightarrow> 32 word result" where
  "decode_size X data =
     ebind (require (4 \<le> length data)
       (Invalid_Argument (str ''payload for junk decrypter too small''))) (\<lambda>_.
     Inr (ox_load_le32 X data))"

text \<open>\<open>ChannelEncryption enc{_keys.second, _keys.first}\<close>: the node is the server.\<close>

definition server_channel :: "x25519_keypair \<Rightarrow> channel" where
  "server_channel keys = \<lparr>private_key = snd keys, public_key = fst keys, server = True\<rparr>"

text \<open>The two members of the metadata; the type defaults to AES-GCM.\<close>

definition metadata_enc_type :: "'j json_lib \<Rightarrow> 'j \<Rightarrow> enc_type result" where
  "metadata_enc_type J metadata =
     (case js_find J metadata (str ''enc_type'') of
        None \<Rightarrow> Inr aes_gcm
      | Some j \<Rightarrow> ebind (or_throw (js_get_string J j) Json_Error) parse_enc_type)"

definition metadata_ephemeral_key :: "oxenc \<Rightarrow> 'j json_lib \<Rightarrow> 'j \<Rightarrow> x25519_pubkey result" where
  "metadata_ephemeral_key X J metadata =
     (case js_find J metadata (str ''ephemeral_key'') of
        None \<Rightarrow> Inl (Invalid_Argument (str ''metadata does not have 'ephemeral_key' entry''))
      | Some j \<Rightarrow> ebind (or_throw (js_get_string J j) Json_Error) (parse_x25519_pubkey X))"

text \<open>
  The ciphertext is a view into the request: what lies behind it is the text of the metadata, by
  then all that is left of \<open>data\<close>.
\<close>

definition ParseJunk :: "('r, 'j) libs \<Rightarrow> x25519_keypair \<Rightarrow> bytes \<Rightarrow> 'r junk result" where
  "ParseJunk L keys data =
     ebind (decode_size (lib_ox L) data) (\<lambda>sz.
     let data = drop 4 data in
     ebind (require (unat sz \<le> length data)
       (Invalid_Argument (str ''encrypted data segment too small''))) (\<lambda>_.
     let ct = take (unat sz) data; data = drop (unat sz) data in
     ebind (or_throw (js_parse (lib_js L) data) Json_Error) (\<lambda>metadata.
     ebind (metadata_enc_type (lib_js L) metadata) (\<lambda>keytype.
     ebind (metadata_ephemeral_key (lib_ox L) (lib_js L) metadata) (\<lambda>remote_pk.
     let enc = server_channel keys in
     ebind (decrypt_in (lib_na L) (lib_evp L) enc keytype ct data remote_pk) (\<lambda>pl.
     Inr \<lparr>junk_payload = pl,
          transformReply = (\<lambda>plaintext. encrypt (lib_na L) (lib_evp L) enc keytype plaintext remote_pk)\<rparr>))))))"

text \<open>
  The factories: from a keypair; from a node and a type, which is not implemented and returns a
  null pointer.
\<close>

datatype junk_parser = JunkDecrypter x25519_keypair

definition JunkParser_keys :: "x25519_keypair \<Rightarrow> junk_parser option" where
  "JunkParser_keys keys = Some (JunkDecrypter keys)"

definition JunkParser_snode :: "snode_info \<Rightarrow> enc_type \<Rightarrow> junk_parser option" where
  "JunkParser_snode info keytype = None"

subsection \<open>Lemmas\<close>

lemma libs_okD:
  assumes "libs_ok L"
  shows "sodium_ok (lib_na L)" "openssl_ok (lib_evp L)" "json_ok (lib_js L)" "hex_ok (lib_ox L)"
    "base64_ok (lib_ox L)" "base32z_ok (lib_ox L)" "endian_ok (lib_ox L)"
  using assms by (simp_all add: libs_ok_def)

lemma json_okD:
  assumes "json_ok J" and "distinct (map fst kvs)"
  shows "js_find J (js_strings J kvs) k = map_option (js_string J) (map_of kvs k)"
    and "js_get_string J (js_string J s) = Some s"
  using assms by (simp_all add: json_ok_def)

lemma json_get_string: "json_ok J \<Longrightarrow> js_get_string J (js_string J s) = Some s"
  by (simp add: json_ok_def)

lemma json_dump_strings:
  assumes "json_ok J" and "distinct (map fst kvs)" and "list_all (\<lambda>(k, s). ascii k \<and> ascii s) kvs"
  obtains d where "js_dump J (js_strings J kvs) = Some d"
    and "js_parse J d = Some (js_strings J kvs)"
    and "length d \<le> 6 * members_size kvs + 8 * length kvs + 2"
  using assms unfolding json_ok_def by blast

lemma metadata_enc_type_strings:
  assumes "json_ok J" and "distinct (map fst kvs)"
    and "map_of kvs (str ''enc_type'') = Some (enc_type_string t)"
  shows "metadata_enc_type J (js_strings J kvs) = Inr t"
  using assms by (simp add: metadata_enc_type_def json_okD parse_enc_type_string)

lemma metadata_ephemeral_key_strings:
  assumes "json_ok J" and "hex_ok X" and "distinct (map fst kvs)" and "length A = 32"
    and "map_of kvs (str ''ephemeral_key'') = Some (key_hex X A)"
  shows "metadata_ephemeral_key X J (js_strings J kvs) = Inr A"
  using assms by (simp add: metadata_ephemeral_key_def json_okD hex_text.parse_print)

lemma metadata_defined:
  "is_defined (metadata_enc_type J m)"
  "hex_ok X \<Longrightarrow> base64_ok X \<Longrightarrow> base32z_ok X \<Longrightarrow> is_defined (metadata_ephemeral_key X J m)"
  using parse_pubkey_defined
  by (auto simp: metadata_enc_type_def metadata_ephemeral_key_def parse_enc_type_def
      parse_x25519_pubkey_def intro!: ebind_defined split: option.splits)

text \<open>
  The framing the parser shares with the maker of onions: a length prefix of four bytes, the
  segment it measures, and what follows.
\<close>

locale frame_codec =
  fixes ok :: "'l \<Rightarrow> bool"
    and put_size :: "'l \<Rightarrow> nat \<Rightarrow> bytes"
    and get_size :: "'l \<Rightarrow> bytes \<Rightarrow> 32 word result"
  assumes put_length: "ok l \<Longrightarrow> length (put_size l n) = 4"
    and get_put: "ok l \<Longrightarrow> get_size l (put_size l n @ rest) = Inr (narrow_u32 n)"
begin

lemma frame_split:
  assumes "ok l" and "length ct < 2 ^ 32"
  shows "\<exists>sz. get_size l (put_size l (length ct) @ ct @ rest) = Inr sz \<and> unat sz = length ct \<and>
    drop 4 (put_size l (length ct) @ ct @ rest) = ct @ rest"
  using assms get_put [OF assms(1), of "length ct" "ct @ rest"]
  by (simp add: put_length drop_append)

text \<open>Sizes that agree modulo \<open>2\<^sup>3\<^sup>2\<close> have the same prefix, as far as the reader can tell.\<close>

lemma sizes_wrap:
  assumes "ok l"
  shows "get_size l (put_size l m) = get_size l (put_size l n) \<longleftrightarrow> m mod 2 ^ 32 = n mod 2 ^ 32"
  using get_put [OF assms, of m "[]"] get_put [OF assms, of n "[]"]
  by (auto simp: word_unat_eq_iff unat_narrow_u32)

end

definition json_frame :: "oxenc \<Rightarrow> bytes \<Rightarrow> bytes \<Rightarrow> bytes" where
  "json_frame X ct md = ox_write_le32 X (narrow_u32 (length ct)) @ ct @ md"

lemma endian_put: "endian_ok X \<Longrightarrow> length (ox_write_le32 X w) = 4"
  by (simp add: endian_ok_def)

lemma decode_size_put:
  "endian_ok X \<Longrightarrow> decode_size X (ox_write_le32 X w @ rest) = Inr w"
  by (simp add: decode_size_def endian_ok_def le_word32_bytes)

text \<open>A frame is taken apart at its seams, whatever its segments hold.\<close>

lemma ParseJunk_frame:
  assumes "endian_ok (lib_ox L)" and "length ct < 2 ^ 32"
  shows "ParseJunk L keys (json_frame (lib_ox L) ct md) =
     ebind (or_throw (js_parse (lib_js L) md) Json_Error) (\<lambda>metadata.
     ebind (metadata_enc_type (lib_js L) metadata) (\<lambda>keytype.
     ebind (metadata_ephemeral_key (lib_ox L) (lib_js L) metadata) (\<lambda>remote_pk.
     ebind (decrypt_in (lib_na L) (lib_evp L) (server_channel keys) keytype ct md remote_pk) (\<lambda>pl.
     Inr \<lparr>junk_payload = pl, transformReply = (\<lambda>plaintext.
       encrypt (lib_na L) (lib_evp L) (server_channel keys) keytype plaintext remote_pk)\<rparr>))))"
  using assms
  by (simp add: ParseJunk_def json_frame_def decode_size_put endian_put drop_append Let_def)

lemma ParseJunk_sealed:
  assumes "libs_ok L" and "length ct < 2 ^ 32"
    and "js_parse (lib_js L) md = Some (js_strings (lib_js L) kvs)" and "distinct (map fst kvs)"
    and "map_of kvs (str ''enc_type'') = Some (enc_type_string t)"
    and "map_of kvs (str ''ephemeral_key'') = Some (key_hex (lib_ox L) A)" and "length A = 32"
    and "decrypt (lib_na L) (lib_evp L) (server_channel keys) t ct A = Inr pl"
  shows "ParseJunk L keys (json_frame (lib_ox L) ct md) = Inr \<lparr>junk_payload = pl,
    transformReply = (\<lambda>p. encrypt (lib_na L) (lib_evp L) (server_channel keys) t p A)\<rparr>"
  using assms decrypt_in_opened [OF assms(8)]
  by (simp add: ParseJunk_frame libs_okD metadata_enc_type_strings metadata_ephemeral_key_strings)

text \<open>A null ephemeral key never yields a plaintext.\<close>

lemma decrypt_null_key:
  assumes "dh_ok N"
  shows "\<exists>m. decrypt_in N E c t ct behind (null_bytes 32) = Inl (Runtime_Error m)"
proof -
  have null: "na_scalarmult N (private_key c) (null_bytes 32) = None"
    using assms(1) by (simp add: dh_ok_def null_bytes_def)
  show ?thesis
    by (cases t) (auto simp: decrypt_gcm_def decrypt_cbc_def derive_symmetric_key_def null
        calculate_shared_secret_def decrypt_xchacha20_def xchacha20_shared_key_def Let_def require_def)
qed

text \<open>What parses can be answered.\<close>

lemma ParseJunk_answerable:
  assumes "libs_ok L" and "ParseJunk L keys data = Inr junk" and "length reply + 16 < 2 ^ 31"
  shows "\<exists>d q'. transformReply junk reply q = (Inr d, q')"
proof -
  obtain t A ct rest m where "decrypt_in (lib_na L) (lib_evp L) (server_channel keys) t ct rest A = Inr m"
      and "transformReply junk = (\<lambda>p. encrypt (lib_na L) (lib_evp L) (server_channel keys) t p A)"
    using assms(2) by (auto simp: ParseJunk_def Let_def ebind_eq_Inr)
  moreover have "message_fits t (length reply)" using assms(3) by (cases t) auto
  ultimately show ?thesis
    using opened_can_seal [OF libs_okD(1) [OF assms(1)] libs_okD(2) [OF assms(1)]] by metis
qed

text \<open>A request whose metadata names AES-CBC: what it takes in bytes, and when it opens.\<close>

lemma ParseJunk_defined:
  assumes "libs_ok L" and "length data < 2 ^ 31"
    and "\<And>md. js_parse (lib_js L) (drop (4 + unat (le_word32 data)) data) = Some md \<Longrightarrow>
      metadata_enc_type (lib_js L) md = Inr aes_cbc \<Longrightarrow> 20 \<le> length data"
  shows "is_defined (ParseJunk L keys data)"
proof -
  note ok = libs_okD [OF assms(1)]
  show ?thesis
  proof (cases "4 \<le> length data \<and> unat (le_word32 data) \<le> length data - 4")
    case True
    then have sz: "decode_size (lib_ox L) data = Inr (le_word32 data)"
      using ok(7) by (simp add: decode_size_def endian_ok_def)
    have dec: "is_defined (decrypt_in (lib_na L) (lib_evp L) c t
        (take (unat (le_word32 data)) (drop 4 data)) (drop (4 + unat (le_word32 data)) data) pk)"
      if "t = aes_cbc \<Longrightarrow> 20 \<le> length data" for c t pk
      by (rule decrypt_in_defined [OF ok(1,2)]) (use assms(2) True that in auto)
    show ?thesis
      unfolding ParseJunk_def sz Let_def
      using assms(3) dec True
      by (intro ebind_defined metadata_defined ok) (auto simp: add.commute)
  next
    case False
    then show ?thesis
      using ok(7) by (auto simp: ParseJunk_def decode_size_def endian_ok_def require_def)
  qed
qed

lemma cbc_metadata_length:
  assumes "json_text_ok J" and "js_parse J text = Some md" and "metadata_enc_type J md = Inr aes_cbc"
  shows "16 \<le> length text"
proof -
  obtain v s where "js_find J md (str ''enc_type'') = Some v" "js_get_string J v = Some s"
      and s: "parse_enc_type s = Inr aes_cbc"
    using assms(3) by (auto simp: metadata_enc_type_def ebind_eq_Inr split: option.splits)
  then have "length (str ''enc_type'') + length s + 6 \<le> length text"
    using assms(1,2) unfolding json_text_ok_def by blast
  moreover have "s = str ''aes-cbc'' \<or> s = str ''cbc''"
    using s by (simp add: parse_enc_type_def split: if_splits)
  then have "3 \<le> length s" by (auto simp: str_def)
  ultimately show ?thesis by (simp add: str_def)
qed

lemma decrypt_cbc_short:
  assumes "evp_sizes_ok E" and "evp_cbc_final_ok E" and "length ct < 16"
  shows "decrypt_cbc N E c ct behind pk \<noteq> Inr m"
  using assms
  by (auto simp: decrypt_cbc_def decrypt_openssl_def evp_sizes_ok_def evp_cbc_final_ok_def Let_def
      ebind_eq_Inr narrow_int_def)

lemma ParseJunk_short_cbc:
  assumes "libs_ok L" and "evp_cbc_final_ok (lib_evp L)"
    and "js_parse (lib_js L) (drop (4 + unat (le_word32 data)) data) = Some md"
    and "metadata_enc_type (lib_js L) md = Inr aes_cbc" and "unat (le_word32 data) < 16"
  shows "ParseJunk L keys data \<noteq> Inr junk"
proof
  assume *: "ParseJunk L keys data = Inr junk"
  note ok = libs_okD [OF assms(1)]
  from * have "decode_size (lib_ox L) data = Inr (le_word32 data)"
    using ok(7) by (auto simp: ParseJunk_def decode_size_def endian_ok_def ebind_eq_Inr)
  with * obtain pk m where "decrypt_in (lib_na L) (lib_evp L) (server_channel keys) aes_cbc
      (take (unat (le_word32 data)) (drop 4 data)) (drop (4 + unat (le_word32 data)) data) pk = Inr m"
    using assms(3,4) by (auto simp: ParseJunk_def Let_def ebind_eq_Inr add.commute)
  moreover have "length (take (unat (le_word32 data)) (drop 4 data)) < 16" using assms(5) by simp
  moreover have "evp_sizes_ok (lib_evp L)" using ok(2) by (simp add: openssl_ok_def)
  ultimately show False using decrypt_cbc_short [OF _ assms(2)] by (metis decrypt_in.simps(3))
qed

subsection \<open>Properties\<close>

definition ref_keys :: x25519_keypair where
  "ref_keys = (public_key ref_server, private_key ref_server)"

lemma ref_libs_simps:
  "lib_na ref_libs = ref_sodium" "lib_evp ref_libs = ref_openssl"
  "lib_ox ref_libs = ref_oxenc" "lib_js ref_libs = ref_json"
  by (simp_all add: ref_libs_def)

definition ref_metadata :: "bytes \<Rightarrow> bytes \<Rightarrow> bytes" where
  "ref_metadata enc key = jenc (JObj [(str ''enc_type'', JStr enc), (str ''ephemeral_key'', JStr key)])"

lemma ref_metadata_parse:
  "js_parse ref_json (ref_metadata e k)
    = Some (js_strings ref_json [(str ''enc_type'', e), (str ''ephemeral_key'', k)])"
  by (simp add: ref_metadata_def ref_parse_dump ref_js_strings del: jenc.simps)

lemma metadata_keys_distinct [simp]:
  "str ''enc_type'' \<noteq> str ''ephemeral_key''" "str ''ephemeral_key'' \<noteq> str ''enc_type''"
  by (simp_all add: str_def)

text \<open>
  The parser's length checks: a request shorter than its length prefix, and one whose prefix
  announces more than follows, are refused with their own exception, for every announced size up
  to \<open>2\<^sup>3\<^sup>2 - 1\<close>; nothing is parsed or decrypted then.
\<close>

theorem ParseJunk_truncated:
  assumes "endian_ok (lib_ox L)"
  shows "(length data < 4 \<longrightarrow>
      ParseJunk L keys data = Inl (Invalid_Argument (str ''payload for junk decrypter too small''))) \<and>
    (4 \<le> length data \<and> length data < 4 + unat (le_word32 data) \<longrightarrow>
      ParseJunk L keys data = Inl (Invalid_Argument (str ''encrypted data segment too small'')))"
proof -
  have "\<not> unat (le_word32 data) \<le> length (drop 4 data)" if "4 \<le> length data" "length data < 4 + unat (le_word32 data)"
    using that by simp
  then show ?thesis
    using assms by (auto simp only: ParseJunk_def decode_size_def Let_def endian_ok_def)
      (simp_all add: require_def)
qed

theorem ParseJunk_truncated_witness:
  "ParseJunk ref_libs ref_keys [1, 2, 3]
    = Inl (Invalid_Argument (str ''payload for junk decrypter too small'')) \<and>
   ParseJunk ref_libs ref_keys [2, 0, 0, 0, 9]
    = Inl (Invalid_Argument (str ''encrypted data segment too small''))"
proof -
  have "unat (le_word32 [2, 0, 0, 0, 9]) = 2" by (simp add: le_word32_def)
  then show ?thesis
    using ParseJunk_truncated [of ref_libs "[1, 2, 3]" ref_keys]
      ParseJunk_truncated [of ref_libs "[2, 0, 0, 0, 9]" ref_keys] libs_okD [OF ref_libs_ok]
    by simp
qed

text \<open>
  C8. A request and its reply, for every encryption type: a frame around what a client encrypted
  for the node, with metadata naming the client's ephemeral key and the type (the type may be
  missing for AES-GCM, the default), parses to the plaintext, and what \<open>transformReply\<close> makes of a
  reply is decrypted by that client.
\<close>

theorem ParseJunk_exchange:
  assumes "libs_ok L" and "channel_peers (lib_na L) c (server_channel keys)"
    and "message_fits t (length m)" and "message_fits t (length reply)"
    and "encrypt (lib_na L) (lib_evp L) c t m (fst keys) r = (Inr ct, r')" and "length ct < 2 ^ 32"
    and "length (public_key c) = 32" and "distinct (map fst kvs)"
    and "js_parse (lib_js L) md = Some (js_strings (lib_js L) kvs)"
    and "map_of kvs (str ''ephemeral_key'') = Some (key_hex (lib_ox L) (public_key c))"
    and "map_of kvs (str ''enc_type'') = Some (enc_type_string t) \<or>
         map_of kvs (str ''enc_type'') = None \<and> t = aes_gcm"
  shows "\<exists>junk d s'. ParseJunk L keys (json_frame (lib_ox L) ct md) = Inr junk \<and>
    junk_payload junk = m \<and> transformReply junk reply s = (Inr d, s') \<and>
    decrypt (lib_na L) (lib_evp L) c t d (fst keys) = Inr reply"
proof -
  let ?N = "lib_na L" and ?E = "lib_evp L" and ?s = "server_channel keys"
  have pk: "public_key ?s = fst keys" by (simp add: server_channel_def)
  have ok: "case (?N, ?E) of (N, E) \<Rightarrow> sodium_ok N \<and> openssl_ok E"
    using assms(1) by (simp add: libs_ok_def)
  have opened: "decrypt_in ?N ?E ?s t ct md (public_key c) = Inr m"
    using channel_of.opened [OF ok, of c ?s t m r ct r'] assms(2,3,5) pk
    by (intro decrypt_in_opened) simp
  have reply: "\<exists>d s'. encrypt ?N ?E ?s t reply (public_key c) s = (Inr d, s') \<and>
      decrypt ?N ?E c t d (fst keys) = Inr reply"
    using channel_of.seal_unseal [OF ok, of ?s c t reply s] channel_peers_sym [OF assms(2)]
      assms(4) pk by auto
  have "metadata_enc_type (lib_js L) (js_strings (lib_js L) kvs) = Inr t"
    using assms(11)
  proof
    assume "map_of kvs (str ''enc_type'') = None \<and> t = aes_gcm"
    then show ?thesis using assms(1,8) by (simp add: metadata_enc_type_def json_okD libs_okD)
  qed (use assms(1,8) in \<open>simp add: metadata_enc_type_strings libs_okD\<close>)
  then show ?thesis
    using assms reply opened
    by (simp add: ParseJunk_frame libs_okD metadata_ephemeral_key_strings)
qed

theorem ParseJunk_exchange_witness:
  "\<exists>ct r'. encrypt ref_sodium ref_openssl ref_client aes_gcm (str ''ping'') (fst ref_keys) 0 = (Inr ct, r') \<and>
    (\<exists>junk d s'. ParseJunk ref_libs ref_keys (json_frame ref_oxenc ct
        (ref_metadata (enc_type_string aes_gcm) (key_hex ref_oxenc (public_key ref_client)))) = Inr junk \<and>
      junk_payload junk = str ''ping'' \<and> transformReply junk (str ''pong'') 5 = (Inr d, s') \<and>
      decrypt ref_sodium ref_openssl ref_client aes_gcm d (fst ref_keys) = Inr (str ''pong''))"
proof -
  let ?kvs = "[(str ''enc_type'', enc_type_string aes_gcm),
    (str ''ephemeral_key'', key_hex ref_oxenc (public_key ref_client))]"
  have peers: "channel_peers ref_sodium ref_client (server_channel ref_keys)"
    using ref_peers by (simp add: server_channel_def ref_keys_def ref_server_def)
  have ok: "sodium_ok ref_sodium" "openssl_ok ref_openssl"
    by (simp_all add: ref_sodium_ok ref_openssl_ok)
  obtain ct r' where ct: "encrypt ref_sodium ref_openssl ref_client aes_gcm (str ''ping'') (fst ref_keys) 0
      = (Inr ct, r')" and len: "length ct \<le> length (str ''ping'') + 29"
    using channel_of.seal_unseal [of "(ref_sodium, ref_openssl)" ref_client "server_channel ref_keys"
        aes_gcm "str ''ping''" 0] ok peers
    by (auto simp: server_channel_def str_def)
  have len': "length ct < 2 ^ 32" "length (public_key ref_client) = 32"
    using len by (simp_all add: str_def ref_client_def ref_public_def)
  have fits: "message_fits aes_gcm (length (str ''ping''))" "message_fits aes_gcm (length (str ''pong''))"
    by (simp_all add: str_def)
  have "\<exists>junk d s'. ParseJunk ref_libs ref_keys (json_frame (lib_ox ref_libs) ct
        (ref_metadata (enc_type_string aes_gcm) (key_hex ref_oxenc (public_key ref_client)))) = Inr junk \<and>
      junk_payload junk = str ''ping'' \<and> transformReply junk (str ''pong'') 5 = (Inr d, s') \<and>
      decrypt (lib_na ref_libs) (lib_evp ref_libs) ref_client aes_gcm d (fst ref_keys) = Inr (str ''pong'')"
    by (rule ParseJunk_exchange [where kvs = ?kvs and r = 0 and r' = r', OF ref_libs_ok])
      (use peers ct len' fits in \<open>simp_all add: ref_libs_simps ref_metadata_parse\<close>)
  with ct show ?thesis by (auto simp: ref_libs_simps)
qed





text \<open>
  An ephemeral key that is not a key (text of any other length than a key's) never yields a
  payload: the parser goes on with the null key, and the key exchange refuses it.
\<close>

theorem ParseJunk_malformed_key:
  assumes "libs_ok L" and "length ct < 2 ^ 32"
    and "js_parse (lib_js L) md = Some (js_strings (lib_js L) kvs)" and "distinct (map fst kvs)"
    and "map_of kvs (str ''enc_type'') = Some (enc_type_string t)"
    and "map_of kvs (str ''ephemeral_key'') = Some s" and "length s \<notin> {32, 43, 44, 52, 64}"
  shows "\<exists>m. ParseJunk L keys (json_frame (lib_ox L) ct md) = Inl (Runtime_Error m)"
proof -
  have "metadata_ephemeral_key (lib_ox L) (lib_js L) (js_strings (lib_js L) kvs) = Inr (null_bytes 32)"
    using assms by (simp add: metadata_ephemeral_key_def json_okD libs_okD parse_x25519_pubkey_def
        parse_pubkey_def)
  moreover obtain m where
    "decrypt_in (lib_na L) (lib_evp L) (server_channel keys) t ct md (null_bytes 32) = Inl (Runtime_Error m)"
    using decrypt_null_key libs_okD(1) [OF assms(1)] unfolding sodium_ok_def by blast
  ultimately show ?thesis
    using assms by (simp add: ParseJunk_frame libs_okD metadata_enc_type_strings)
qed

theorem ParseJunk_malformed_key_witness:
  "\<exists>m. ParseJunk ref_libs ref_keys (json_frame ref_oxenc [1, 2, 3] (ref_metadata (str ''aes-gcm'') [1, 2]))
    = Inl (Runtime_Error m)"
proof -
  show ?thesis
    using ParseJunk_malformed_key [of ref_libs "[1, 2, 3]" "ref_metadata (str ''aes-gcm'') [1, 2]"
        "[(str ''enc_type'', str ''aes-gcm''), (str ''ephemeral_key'', [1, 2])]" aes_gcm "[1, 2]" ref_keys,
        OF ref_libs_ok] ref_metadata_parse
    by (simp add: ref_libs_simps)
qed

end
