(* ===== verification/Onion_Maker.thy ===== *)
theory Onion_Maker
  imports Junk
begin

text \<open>
  onionreq/onion_maker.hpp and onion_maker.cpp: making an onion request. The loop over the
  reversed hops is \<open>wrap_hops\<close>; its first argument after the type is \<open>*std::prev(it)\<close>, the next its
  remaining iterations. \<open>OnionMaker_Impl\<close> has two instances, one per factory.
\<close>

definition encode_size :: "oxenc \<Rightarrow> nat \<Rightarrow> bytes" where
  "encode_size X s = ox_write_le32 X (narrow_u32 s)"

definition crypto_box_keypair :: "'r sodium \<Rightarrow> ('r, x25519_pubkey \<times> x25519_seckey) eff" where
  "crypto_box_keypair N r = (case na_box_keypair N r of (keys, r') \<Rightarrow> (Inr keys, r'))"

definition client_channel :: "x25519_seckey \<Rightarrow> x25519_pubkey \<Rightarrow> channel" where
  "client_channel a A = \<lparr>private_key = a, public_key = A, server = False\<rparr>"

definition json_dump :: "'j json_lib \<Rightarrow> 'j \<Rightarrow> bytes result" where
  "json_dump J j = or_throw (js_dump J j) Json_Error"

definition routing_members :: "oxenc \<Rightarrow> enc_type \<Rightarrow> snode_info \<Rightarrow> x25519_pubkey \<Rightarrow> (bytes \<times> bytes) list" where
  "routing_members X keytype next A =
     [(str ''destination'', key_hex X (identity next)),
      (str ''ephemeral_key'', key_hex X A),
      (str ''enc_type'', enc_type_string keytype)]"

definition entry_members :: "oxenc \<Rightarrow> enc_type \<Rightarrow> x25519_pubkey \<Rightarrow> (bytes \<times> bytes) list" where
  "entry_members X keytype A =
     [(str ''ephemeral_key'', key_hex X A), (str ''enc_type'', enc_type_string keytype)]"

fun wrap_hops ::
    "('r, 'j) libs \<Rightarrow> enc_type \<Rightarrow> snode_info \<Rightarrow> snode_info list \<Rightarrow> x25519_pubkey \<Rightarrow> bytes \<Rightarrow>
     ('r, bytes \<times> x25519_pubkey) eff" where
  "wrap_hops L keytype prev [] A blob = lift (Inr (blob, A))"
| "wrap_hops L keytype prev (it # rest) A blob =
     sbind (lift (json_dump (lib_js L)
       (js_strings (lib_js L) (routing_members (lib_ox L) keytype prev A)))) (\<lambda>routing.
     let blob = encode_size (lib_ox L) (length blob) @ blob @ routing
     in sbind (crypto_box_keypair (lib_na L)) (\<lambda>(A, a).
        sbind (encrypt (lib_na L) (lib_evp L) (client_channel a A) keytype blob (onion it)) (\<lambda>blob.
        wrap_hops L keytype it rest A blob)))"

definition decrypt_response ::
    "('r, 'j) libs \<Rightarrow> enc_type \<Rightarrow> channel \<Rightarrow> x25519_pubkey \<Rightarrow> bytes \<Rightarrow> bytes option result" where
  "decrypt_response L keytype d finalKey body =
     ebind (catch_all (decrypt (lib_na L) (lib_evp L) d keytype body finalKey)) (\<lambda>m.
     case m of
       Some p \<Rightarrow> Inr (Some p)
     | None \<Rightarrow>
         (if ox_is_base64 (lib_ox L) body
          then catch_all (decrypt (lib_na L) (lib_evp L) d keytype (ox_from_base64 (lib_ox L) body) finalKey)
          else Inr None))"

definition MakeOnion ::
    "('r, 'j) libs \<Rightarrow> enc_type \<Rightarrow> bytes \<Rightarrow> onion_path \<Rightarrow> ('r, onion_payload) eff" where
  "MakeOnion L keytype payload p =
     sbind (lift (json_dump (lib_js L) (remote_ControlData (lib_js L) (remote p)))) (\<lambda>control.
     sbind (crypto_box_keypair (lib_na L)) (\<lambda>(A, a).
     sbind (lift (case rev (hops p) of
         [] \<Rightarrow> Inl (Undefined ''back() of an empty vector'')
       | back # rest \<Rightarrow> Inr (back, rest))) (\<lambda>(back, rest).
     let data = encode_size (lib_ox L) (length payload) @ payload @ control;
         e = client_channel a A
     in sbind (encrypt (lib_na L) (lib_evp L) e keytype data (onion back)) (\<lambda>blob.
        sbind (wrap_hops L keytype back rest A blob) (\<lambda>(blob, A').
        sbind (lift (json_dump (lib_js L)
          (js_strings (lib_js L) (entry_members (lib_ox L) keytype A')))) (\<lambda>entry.
        lift (Inr \<lparr>ciphertext = encode_size (lib_ox L) (length blob) @ blob @ entry,
                   path = p,
                   maybeDecryptResponse = decrypt_response L keytype e (onion back)\<rparr>)))))))"

datatype onion_maker = OnionMaker_Impl enc_type

definition OnionMaker_aesgcm :: onion_maker where
  "OnionMaker_aesgcm = OnionMaker_Impl aes_gcm"

definition OnionMaker_xchacha20 :: onion_maker where
  "OnionMaker_xchacha20 = OnionMaker_Impl xchacha20"

fun maker_MakeOnion ::
    "('r, 'j) libs \<Rightarrow> onion_maker \<Rightarrow> bytes \<Rightarrow> onion_path \<Rightarrow> ('r, onion_payload) eff" where
  "maker_MakeOnion L (OnionMaker_Impl keytype) payload p = MakeOnion L keytype payload p"

subsection \<open>Lemmas\<close>

interpretation size_prefix: frame_codec endian_ok encode_size decode_size
  by unfold_locales (simp_all add: encode_size_def endian_put decode_size_put)

lemma frame_fold: "encode_size X (length ct) @ ct @ md = json_frame X ct md"
  by (simp add: encode_size_def json_frame_def)

lemma length_json_frame:
  "endian_ok X \<Longrightarrow> length (json_frame X ct md) = 4 + length ct + length md"
  by (simp add: json_frame_def endian_put)

text \<open>An ephemeral key and the node it is used with are the two ends of a channel.\<close>

definition honest_keys :: "'r sodium \<Rightarrow> snode_info \<Rightarrow> x25519_keypair \<Rightarrow> bool" where
  "honest_keys N n keys \<longleftrightarrow>
     onion n = fst keys \<and> length (snd keys) = 32 \<and> fst keys = na_scalarmult_base N (snd keys)"

lemma keypair_peers:
  assumes "sodium_ok N" and "honest_keys N n keys"
  obtains A a r' where "crypto_box_keypair N r = (Inr (A, a), r')" and "length A = 32"
    and "channel_peers N (client_channel a A) (server_channel keys)"
proof -
  obtain A a r' where k: "na_box_keypair N r = ((A, a), r')" by (metis prod.exhaust)
  have "random_ok N" using assms(1) by (simp add: sodium_ok_def)
  then have "length a = 32" "A = na_scalarmult_base N a"
    using random_okD(2) k by metis+
  with k assms show ?thesis
    by (intro that [of A a r'])
      (simp_all add: crypto_box_keypair_def channel_peers_def client_channel_def server_channel_def
        honest_keys_def sodium_ok_def dh_ok_def)
qed

text \<open>The two json texts of the wire format exist, parse back, and are short.\<close>

lemma length_str [simp]: "length (str s) = length s"
  by (simp add: str_def)

lemma members_distinct:
  "distinct (map fst (routing_members X t n A))" "distinct (map fst (entry_members X t A))"
  by (simp_all add: routing_members_def entry_members_def str_def)

lemma ascii_str: "list_all (\<lambda>c. of_char c < (128 :: byte)) s \<Longrightarrow> ascii (str s)"
  by (simp add: ascii_def str_def list_all_iff)

lemma ascii_enc_type: "ascii (enc_type_string t)"
  by (cases t) (simp_all add: ascii_str)

lemma length_enc_type: "length (enc_type_string t) \<le> 9"
  by (cases t) simp_all

lemma members_ascii:
  assumes "hex_ok X"
  shows "list_all (\<lambda>(k, s). ascii k \<and> ascii s) (routing_members X t n A)"
    "list_all (\<lambda>(k, s). ascii k \<and> ascii s) (entry_members X t A)"
  using assms
  by (simp_all add: routing_members_def entry_members_def ascii_str ascii_enc_type key_hex_def
      to_hex_def hex_okD)

lemma members_lookup:
  "map_of (routing_members X t n A) (str ''destination'') = Some (key_hex X (identity n))"
  "map_of (routing_members X t n A) (str ''ephemeral_key'') = Some (key_hex X A)"
  "map_of (routing_members X t n A) (str ''enc_type'') = Some (enc_type_string t)"
  "map_of (entry_members X t A) (str ''ephemeral_key'') = Some (key_hex X A)"
  "map_of (entry_members X t A) (str ''enc_type'') = Some (enc_type_string t)"
  by (simp_all add: routing_members_def entry_members_def str_def)

lemma routing_dump:
  assumes "libs_ok L" and "length (identity n) = 32" and "length A = 32"
  obtains d where
    "json_dump (lib_js L) (js_strings (lib_js L) (routing_members (lib_ox L) t n A)) = Inr d"
    and "js_parse (lib_js L) d = Some (js_strings (lib_js L) (routing_members (lib_ox L) t n A))"
    and "length d \<le> 1040"
proof -
  have "members_size (routing_members (lib_ox L) t n A) \<le> 169"
    using assms length_enc_type [of t]
    by (simp add: members_size_def routing_members_def key_hex_def to_hex_def hex_okD libs_okD)
  moreover obtain d where
      "js_dump (lib_js L) (js_strings (lib_js L) (routing_members (lib_ox L) t n A)) = Some d"
      "js_parse (lib_js L) d = Some (js_strings (lib_js L) (routing_members (lib_ox L) t n A))"
      "length d \<le> 6 * members_size (routing_members (lib_ox L) t n A)
        + 8 * length (routing_members (lib_ox L) t n A) + 2"
    using json_dump_strings [OF libs_okD(3) [OF assms(1)] members_distinct(1)
        members_ascii(1) [OF libs_okD(4) [OF assms(1)]]] by blast
  moreover have "length (routing_members (lib_ox L) t n A) = 3"
    by (simp add: routing_members_def)
  ultimately show ?thesis
    by (intro that [of d]) (simp_all add: json_dump_def)
qed

lemma entry_dump:
  assumes "libs_ok L" and "length A = 32"
  obtains d where
    "json_dump (lib_js L) (js_strings (lib_js L) (entry_members (lib_ox L) t A)) = Inr d"
    and "js_parse (lib_js L) d = Some (js_strings (lib_js L) (entry_members (lib_ox L) t A))"
    and "length d \<le> 600"
proof -
  have "members_size (entry_members (lib_ox L) t A) \<le> 94"
    using assms length_enc_type [of t]
    by (simp add: members_size_def entry_members_def key_hex_def to_hex_def hex_okD libs_okD)
  moreover obtain d where
      "js_dump (lib_js L) (js_strings (lib_js L) (entry_members (lib_ox L) t A)) = Some d"
      "js_parse (lib_js L) d = Some (js_strings (lib_js L) (entry_members (lib_ox L) t A))"
      "length d \<le> 6 * members_size (entry_members (lib_ox L) t A) + 8 * length (entry_members (lib_ox L) t A) + 2"
    using json_dump_strings [OF libs_okD(3) [OF assms(1)] members_distinct(2)
        members_ascii(2) [OF libs_okD(4) [OF assms(1)]]] by blast
  moreover have "length (entry_members (lib_ox L) t A) = 2"
    by (simp add: entry_members_def)
  ultimately show ?thesis
    by (intro that [of d]) (simp_all add: json_dump_def)
qed

end
