(* ===== verification/Onion_Delivery.thy ===== *)
theory Onion_Delivery
  imports Onion_Maker
begin

text \<open>
  The journey of an onion: each hop takes its layer off with the junk parser, reads from the
  routing data behind the next layer which node to hand it to, and the last hop holds the
  request. \<open>peel_path\<close> is that journey for a list of nodes' keypairs; it yields the destinations
  read on the way and the last hop's \<open>Junk\<close>.
\<close>

definition relay_destination :: "('r, 'j) libs \<Rightarrow> bytes \<Rightarrow> bytes result" where
  "relay_destination L data =
     ebind (decode_size (lib_ox L) data) (\<lambda>sz.
     ebind (or_throw (js_parse (lib_js L) (drop (4 + unat sz) data)) Json_Error) (\<lambda>routing.
     case js_find (lib_js L) routing (str ''destination'') of
       None \<Rightarrow> Inl Json_Error
     | Some j \<Rightarrow> or_throw (js_get_string (lib_js L) j) Json_Error))"

fun peel_path ::
    "('r, 'j) libs \<Rightarrow> x25519_keypair list \<Rightarrow> bytes \<Rightarrow> (bytes list \<times> 'r junk) result" where
  "peel_path L [] data = Inl (Invalid_Argument [])"
| "peel_path L [k] data = ebind (ParseJunk L k data) (\<lambda>junk. Inr ([], junk))"
| "peel_path L (k # k' # ks) data =
     ebind (ParseJunk L k data) (\<lambda>junk.
     ebind (relay_destination L (junk_payload junk)) (\<lambda>dest.
     ebind (peel_path L (k' # ks) (junk_payload junk)) (\<lambda>(dests, junk'). Inr (dest # dests, junk'))))"

text \<open>
  What the loop of the maker keeps true of its blob: any frame around it whose metadata names the
  current ephemeral key and the type is peeled by the hops wrapped so far.
\<close>

definition opens_to ::
    "('r, 'j) libs \<Rightarrow> enc_type \<Rightarrow> x25519_keypair list \<Rightarrow> x25519_pubkey \<Rightarrow> bytes \<Rightarrow>
     bytes list \<Rightarrow> 'r junk \<Rightarrow> bool" where
  "opens_to L t ks A blob dests junk \<longleftrightarrow>
     (\<forall>kvs md. distinct (map fst kvs) \<longrightarrow>
        map_of kvs (str ''ephemeral_key'') = Some (key_hex (lib_ox L) A) \<longrightarrow>
        map_of kvs (str ''enc_type'') = Some (enc_type_string t) \<longrightarrow>
        js_parse (lib_js L) md = Some (js_strings (lib_js L) kvs) \<longrightarrow>
        peel_path L ks (json_frame (lib_ox L) blob md) = Inr (dests, junk))"

lemma opens_toD:
  assumes "opens_to L t ks A blob dests junk" and "distinct (map fst kvs)"
    and "map_of kvs (str ''ephemeral_key'') = Some (key_hex (lib_ox L) A)"
    and "map_of kvs (str ''enc_type'') = Some (enc_type_string t)"
    and "js_parse (lib_js L) md = Some (js_strings (lib_js L) kvs)"
  shows "peel_path L ks (json_frame (lib_ox L) blob md) = Inr (dests, junk)"
  using assms unfolding opens_to_def by blast

lemma opens_to_core:
  assumes "libs_ok L" and "length A = 32" and "length blob < 2 ^ 32"
    and "decrypt (lib_na L) (lib_evp L) (server_channel k) t blob A = Inr m"
  shows "opens_to L t [k] A blob [] \<lparr>junk_payload = m,
    transformReply = (\<lambda>p. encrypt (lib_na L) (lib_evp L) (server_channel k) t p A)\<rparr>"
  using assms by (simp add: opens_to_def ParseJunk_sealed)

lemma relay_destination_frame:
  assumes "libs_ok L" and "length blob < 2 ^ 32"
    and "js_parse (lib_js L) md = Some (js_strings (lib_js L) (routing_members X t n A))"
  shows "relay_destination L (json_frame (lib_ox L) blob md) = Inr (key_hex X (identity n))"
  using assms
  by (simp add: relay_destination_def json_frame_def decode_size_put endian_put libs_okD drop_append
      json_okD(1) json_get_string members_distinct members_lookup)

lemma opens_to_wrap:
  assumes "libs_ok L" and "opens_to L t (k # ks) A blob dests junk"
    and "js_parse (lib_js L) md = Some (js_strings (lib_js L) (routing_members (lib_ox L) t n A))"
    and "length blob < 2 ^ 32" and "length A' = 32" and "length blob' < 2 ^ 32"
    and "decrypt (lib_na L) (lib_evp L) (server_channel k') t blob' A'
      = Inr (json_frame (lib_ox L) blob md)"
  shows "opens_to L t (k' # k # ks) A' blob' (key_hex (lib_ox L) (identity n) # dests) junk"
proof -
  have "peel_path L (k # ks) (json_frame (lib_ox L) blob md) = Inr (dests, junk)"
    using assms(2) members_distinct(1) members_lookup(2,3) assms(3) by (rule opens_toD)
  moreover have "relay_destination L (json_frame (lib_ox L) blob md) = Inr (key_hex (lib_ox L) (identity n))"
    using assms(1,4,3) by (rule relay_destination_frame)
  ultimately show ?thesis
    using assms(1,5,6,7) by (simp add: opens_to_def ParseJunk_sealed)
qed

text \<open>Sealing one layer for an honest node, with the length it may add.\<close>

lemma seal_layer:
  assumes "libs_ok L" and "honest_keys (lib_na L) n k" and "t = aes_gcm \<or> t = xchacha20"
    and "length m + 1 < 2 ^ 31"
  obtains A a r1 blob r2 where "crypto_box_keypair (lib_na L) r = (Inr (A, a), r1)"
    and "length A = 32" and "channel_peers (lib_na L) (client_channel a A) (server_channel k)"
    and "encrypt (lib_na L) (lib_evp L) (client_channel a A) t m (onion n) r1 = (Inr blob, r2)"
    and "decrypt (lib_na L) (lib_evp L) (server_channel k) t blob A = Inr m"
    and "length blob \<le> length m + 40"
proof -
  let ?N = "lib_na L" and ?E = "lib_evp L"
  obtain A a r1 where key: "crypto_box_keypair ?N r = (Inr (A, a), r1)" "length A = 32"
      and peers: "channel_peers ?N (client_channel a A) (server_channel k)"
    using keypair_peers [OF libs_okD(1) [OF assms(1)] assms(2)] by metis
  have ok: "case (?N, ?E) of (N, E) \<Rightarrow> sodium_ok N \<and> openssl_ok E"
    using assms(1) by (simp add: libs_okD)
  have fits: "message_fits t (length m)" and "enc_overhead t \<le> 40"
    using assms(3,4) by (cases t; simp)+
  moreover obtain blob r2 where
      "encrypt ?N ?E (client_channel a A) t m (onion n) r1 = (Inr blob, r2)"
      "decrypt ?N ?E (server_channel k) t blob A = Inr m" "length blob \<le> length m + enc_overhead t"
    using channel_of.seal_unseal [OF ok, of "client_channel a A" "server_channel k" t m r1] peers fits
      assms(2)
    by (auto simp: honest_keys_def server_channel_def client_channel_def)
  ultimately show ?thesis using that key peers by fastforce
qed

lemma wrap_hops_opens:
  assumes "libs_ok L" and "t = aes_gcm \<or> t = xchacha20"
    and "list_all2 (honest_keys (lib_na L)) rest kss"
    and "\<forall>n \<in> set (prev # rest). length (identity n) = 32"
    and "length A = 32" and "ks \<noteq> []" and "opens_to L t ks A blob dests junk"
    and "length blob + 1100 * length rest < 2 ^ 31"
  shows "\<exists>blob' A' r'. wrap_hops L t prev rest A blob r = (Inr (blob', A'), r') \<and>
    length A' = 32 \<and> length blob' \<le> length blob + 1100 * length rest \<and>
    opens_to L t (rev kss @ ks) A' blob'
      (map (\<lambda>n. key_hex (lib_ox L) (identity n)) (tl (rev rest @ [prev])) @ dests) junk"
  using assms(3-8)
proof (induction rest arbitrary: kss prev A ks blob dests r)
  case Nil
  then show ?case by (simp add: lift_apply)
next
  case (Cons it rest)
  let ?X = "lib_ox L"
  from Cons.prems(1) obtain k kss' where kss: "kss = k # kss'" "honest_keys (lib_na L) it k"
      "list_all2 (honest_keys (lib_na L)) rest kss'"
    by (auto simp: list_all2_Cons1)
  obtain d where d: "json_dump (lib_js L) (js_strings (lib_js L) (routing_members ?X t prev A)) = Inr d"
      "js_parse (lib_js L) d = Some (js_strings (lib_js L) (routing_members ?X t prev A))" "length d \<le> 1040"
    using routing_dump [OF assms(1)] Cons.prems(2,3) by (metis list.set_intros(1))
  let ?m = "json_frame ?X blob d"
  have lenm: "length ?m \<le> length blob + 1044"
    using d(3) by (simp add: length_json_frame libs_okD [OF assms(1)])
  with Cons.prems(6) have "length ?m + 1 < 2 ^ 31" by simp
  then obtain A' a r1 blob' r2 where layer: "crypto_box_keypair (lib_na L) r = (Inr (A', a), r1)"
      "length A' = 32"
      "encrypt (lib_na L) (lib_evp L) (client_channel a A') t ?m (onion it) r1 = (Inr blob', r2)"
      "decrypt (lib_na L) (lib_evp L) (server_channel k) t blob' A' = Inr ?m"
      "length blob' \<le> length ?m + 40"
    using seal_layer [OF assms(1) kss(2) assms(2)] by metis
  obtain k0 ks0 where ks: "ks = k0 # ks0" using Cons.prems(4) by (cases ks) auto
  have open': "opens_to L t (k # ks) A' blob' (key_hex ?X (identity prev) # dests) junk"
    unfolding ks
    by (rule opens_to_wrap [OF assms(1) Cons.prems(5)[unfolded ks] d(2) _ layer(2) _ layer(4)])
      (use Cons.prems(6) lenm layer(5) in simp_all)
  have "length blob' + 1100 * length rest < 2 ^ 31"
    using Cons.prems(6) layer(5) lenm by simp
  then obtain blob2 A2 r3 where rec: "wrap_hops L t it rest A' blob' r2 = (Inr (blob2, A2), r3)"
      "length A2 = 32" "length blob2 \<le> length blob' + 1100 * length rest"
      "opens_to L t (rev kss' @ k # ks) A2 blob2
        (map (\<lambda>n. key_hex ?X (identity n)) (tl (rev rest @ [it])) @ key_hex ?X (identity prev) # dests) junk"
    using Cons.IH [OF kss(3) _ layer(2) _ open', of it r2] Cons.prems(2) by auto
  have "wrap_hops L t prev (it # rest) A blob r = (Inr (blob2, A2), r3)"
    using d(1) layer(1,3) rec(1) by (simp add: frame_fold lift_apply sbind_def)
  moreover have "map (\<lambda>n. key_hex ?X (identity n)) (tl (rev (it # rest) @ [prev])) @ dests
      = map (\<lambda>n. key_hex ?X (identity n)) (tl (rev rest @ [it])) @ key_hex ?X (identity prev) # dests"
    by (cases "rev rest") simp_all
  moreover have "length blob2 \<le> length blob + 1100 * length (it # rest)"
    using rec(3) layer(5) lenm by simp
  ultimately show ?case
    using rec(2,4) unfolding kss(1) by simp
qed

subsection \<open>The whole request\<close>

text \<open>
  What a request needs: at least one hop, the keys of the hops, whole identity keys, control data
  that json can serialise, and a size that fits an \<open>int\<close> through every layer (a layer adds at
  most 1084 bytes: 4 of length, 1040 of routing data, 40 of nonce and tag).
\<close>

definition sendable ::
    "('r, 'j) libs \<Rightarrow> onion_path \<Rightarrow> x25519_keypair list \<Rightarrow> bytes \<Rightarrow> bytes \<Rightarrow> bool" where
  "sendable L p keys payload control \<longleftrightarrow>
     hops p \<noteq> [] \<and> list_all2 (honest_keys (lib_na L)) (hops p) keys \<and>
     list_all (\<lambda>n. length (identity n) = 32) (hops p) \<and>
     js_dump (lib_js L) (remote_ControlData (lib_js L) (remote p)) = Some control \<and>
     length payload + length control + 1100 * (length (hops p) + 1) < 2 ^ 31"

lemma honest_path_sendable:
  assumes "\<forall>n \<in> set (hops p). wt_snode n \<and> honest_keys (lib_na L) n (keys n)"
    and "hops p \<noteq> []" and "length (hops p) \<le> 4"
    and "js_dump (lib_js L) (remote_ControlData (lib_js L) (remote p)) = Some control"
    and "length payload + length control + 5500 < 2 ^ 31"
  shows "sendable L p (map keys (hops p)) payload control"
proof -
  have "list_all2 (honest_keys (lib_na L)) (hops p) (map keys (hops p))"
    using assms(1) by (auto simp: list_all2_conv_all_nth)
  moreover have "list_all (\<lambda>n. length (identity n) = 32) (hops p)"
    using assms(1) by (auto simp: list_all_iff wt_snode_def)
  ultimately show ?thesis using assms(2-5) by (simp add: sendable_def)
qed

definition onion_arrives ::
    "('r, 'j) libs \<Rightarrow> enc_type \<Rightarrow> onion_path \<Rightarrow> x25519_keypair list \<Rightarrow> bytes \<Rightarrow> bytes \<Rightarrow>
     onion_payload \<Rightarrow> x25519_seckey \<Rightarrow> x25519_pubkey \<Rightarrow> 'r junk \<Rightarrow> bool" where
  "onion_arrives L t p keys payload control om a A junk \<longleftrightarrow>
     path om = p \<and>
     peel_path L keys (ciphertext om)
       = Inr (map (\<lambda>n. key_hex (lib_ox L) (identity n)) (tl (hops p)), junk) \<and>
     junk = \<lparr>junk_payload = json_frame (lib_ox L) payload control,
       transformReply = (\<lambda>m. encrypt (lib_na L) (lib_evp L) (server_channel (last keys)) t m A)\<rparr> \<and>
     maybeDecryptResponse om = decrypt_response L t (client_channel a A) (onion (last (hops p))) \<and>
     channel_peers (lib_na L) (client_channel a A) (server_channel (last keys)) \<and>
     length (ciphertext om) \<le> length payload + length control + 1100 * length (hops p)"

text \<open>The channel for the reply: the first keypair the maker draws.\<close>

definition reply_channel :: "('r, 'j) libs \<Rightarrow> 'r \<Rightarrow> channel" where
  "reply_channel L r = (case fst (na_box_keypair (lib_na L) r) of (A, a) \<Rightarrow> client_channel a A)"

lemma MakeOnion_arrives:
  assumes "libs_ok L" and "t = aes_gcm \<or> t = xchacha20" and "sendable L p keys payload control"
  shows "\<exists>om r' a A junk. MakeOnion L t payload p r = (Inr om, r') \<and>
    onion_arrives L t p keys payload control om a A junk \<and> client_channel a A = reply_channel L r"
proof -
  let ?X = "lib_ox L" and ?core = "json_frame (lib_ox L) payload control"
  note send = assms(3) [unfolded sendable_def]
  obtain lst rest where rev: "rev (hops p) = lst # rest"
    using send by (metis rev_is_Nil_conv neq_Nil_conv)
  then have hops: "hops p = rev rest @ [lst]" by (metis rev.simps(2) rev_rev_ident)
  obtain kss k where keys: "keys = rev kss @ [k]" "list_all2 (honest_keys (lib_na L)) rest kss"
      "honest_keys (lib_na L) lst k"
    using send unfolding hops
    by (auto simp: list_all2_append1 list_all2_Cons1) (metis list_all2_rev rev_rev_ident)
  have ids: "\<forall>n \<in> set (lst # rest). length (identity n) = 32"
    using send unfolding hops by (auto simp: list_all_iff)
  have len: "length payload + length control + 1100 * (length rest + 2) < 2 ^ 31"
    using send unfolding hops by simp
  have lencore: "length ?core = 4 + length payload + length control"
    by (simp add: length_json_frame libs_okD [OF assms(1)])
  then have "length ?core + 1 < 2 ^ 31" using len by simp
  then obtain A a r1 blob r2 where layer: "crypto_box_keypair (lib_na L) r = (Inr (A, a), r1)"
      "length A = 32" "channel_peers (lib_na L) (client_channel a A) (server_channel k)"
      "encrypt (lib_na L) (lib_evp L) (client_channel a A) t ?core (onion lst) r1 = (Inr blob, r2)"
      "decrypt (lib_na L) (lib_evp L) (server_channel k) t blob A = Inr ?core"
      "length blob \<le> length ?core + 40"
    using seal_layer [OF assms(1) keys(3) assms(2)] by metis
  let ?junk = "\<lparr>junk_payload = ?core, transformReply =
    (\<lambda>m. encrypt (lib_na L) (lib_evp L) (server_channel k) t m A)\<rparr>"
  have "length blob < 2 ^ 32" using layer(6) lencore len by simp
  then have "opens_to L t [k] A blob [] ?junk"
    by (rule opens_to_core [OF assms(1) layer(2) _ layer(5)])
  moreover have "length blob + 1100 * length rest < 2 ^ 31" using layer(6) lencore len by simp
  ultimately obtain blob' A' r3 where wrap: "wrap_hops L t lst rest A blob r2 = (Inr (blob', A'), r3)"
      "length A' = 32" "opens_to L t keys A' blob'
        (map (\<lambda>n. key_hex ?X (identity n)) (tl (hops p))) ?junk"
      "length blob' \<le> length blob + 1100 * length rest"
    using wrap_hops_opens [OF assms(1,2) keys(2) ids layer(2), of "[k]" blob "[]" ?junk r2]
    by (auto simp: keys(1) hops)
  obtain d where d: "json_dump (lib_js L) (js_strings (lib_js L) (entry_members ?X t A')) = Inr d"
      "js_parse (lib_js L) d = Some (js_strings (lib_js L) (entry_members ?X t A'))" "length d \<le> 600"
    using entry_dump [OF assms(1) wrap(2)] by metis
  have peel: "peel_path L keys (json_frame ?X blob' d)
      = Inr (map (\<lambda>n. key_hex ?X (identity n)) (tl (hops p)), ?junk)"
    using wrap(3) members_distinct(2) members_lookup(4,5) d(2) by (rule opens_toD)
  let ?om = "\<lparr>ciphertext = json_frame ?X blob' d, path = p,
    maybeDecryptResponse = decrypt_response L t (client_channel a A) (onion lst)\<rparr>"
  have "MakeOnion L t payload p r = (Inr ?om, r3)"
    using send layer(1,4) wrap(1) d(1) rev
    by (simp add: MakeOnion_def json_dump_def frame_fold lift_apply sbind_def Let_def)
  moreover have "onion_arrives L t p keys payload control ?om a A ?junk"
    using peel layer(3,6) wrap(4) d(3) lencore
    by (simp add: onion_arrives_def keys(1) hops length_json_frame libs_okD [OF assms(1)])
  moreover have "client_channel a A = reply_channel L r"
    using layer(1) by (auto simp: reply_channel_def crypto_box_keypair_def split: prod.splits)
  ultimately show ?thesis by blast
qed

subsection \<open>The reply\<close>

lemma arrived_reply:
  assumes "libs_ok L" and "message_fits t (length reply)"
    and "onion_arrives L t p keys payload control om a A junk" and "onion (last (hops p)) = fst (last keys)"
  shows "\<exists>d s'. transformReply junk reply s = (Inr d, s') \<and>
    decrypt (lib_na L) (lib_evp L) (client_channel a A) t d (onion (last (hops p))) = Inr reply"
proof -
  have ok: "case (lib_na L, lib_evp L) of (N, E) \<Rightarrow> sodium_ok N \<and> openssl_ok E"
    using assms(1) by (simp add: libs_okD)
  note arr = assms(3) [unfolded onion_arrives_def]
  have "channel_peers (lib_na L) (server_channel (last keys)) (client_channel a A)"
    using arr by (auto intro: channel_peers_sym)
  then show ?thesis
    using channel_of.seal_unseal [OF ok, of "server_channel (last keys)" "client_channel a A" t reply s]
      assms(2,4) arr
    by (auto simp: client_channel_def server_channel_def)
qed

lemma sendable_last:
  assumes "sendable L p keys payload control"
  shows "onion (last (hops p)) = fst (last keys)"
proof -
  have "hops p \<noteq> []" "list_all2 (honest_keys (lib_na L)) (hops p) keys"
    using assms by (auto simp: sendable_def)
  then show ?thesis
    by (cases "hops p" rule: rev_cases; cases keys rule: rev_cases)
      (auto simp: list_all2_append1 list_all2_Cons1 honest_keys_def)
qed

lemma MakeOnion_response:
  assumes "MakeOnion L t payload p r = (Inr om, r')"
  obtains c k where "maybeDecryptResponse om = decrypt_response L t c k"
  using assms that
  by (auto simp: MakeOnion_def sbind_eq_Inr lift_apply Let_def split: prod.splits)

lemma decrypt_response_hit:
  "decrypt (lib_na L) (lib_evp L) c t body k = Inr m \<Longrightarrow> decrypt_response L t c k body = Inr (Some m)"
  by (simp add: decrypt_response_def)

lemma decrypt_response_base64:
  assumes "decrypt (lib_na L) (lib_evp L) c t body k = Inl e" and "catchable e"
    and "ox_is_base64 (lib_ox L) body"
    and "decrypt (lib_na L) (lib_evp L) c t (ox_from_base64 (lib_ox L) body) k = Inr m"
  shows "decrypt_response L t c k body = Inr (Some m)"
  using assms by (simp add: decrypt_response_def)

lemma from_base64_shorter:
  assumes "base64_ok X" and "ox_is_base64 X s"
  shows "length (ox_from_base64 X s) \<le> length s"
proof -
  have "length (ox_from_base64 X s) = 3 * b64_unpadded_length s div 4"
    using assms by (simp add: base64_ok_def)
  then show ?thesis using b64_unpadded_bounds [of s] by linarith
qed

lemma catch_all_defined: "is_defined m \<Longrightarrow> \<exists>v. catch_all m = Inr v"
  by (simp add: catch_all_cases)

lemma decrypt_response_total:
  assumes "libs_ok L" and "t \<noteq> aes_cbc" and "length body < 2 ^ 31"
  shows "\<exists>v. decrypt_response L t c k body = Inr v"
proof -
  have dec: "\<exists>v. catch_all (decrypt (lib_na L) (lib_evp L) c t b k) = Inr v"
    if "length b < 2 ^ 31" for b
    by (intro catch_all_defined decrypt_defined) (use that assms libs_okD in auto)
  have "\<exists>v. catch_all (decrypt (lib_na L) (lib_evp L) c t (ox_from_base64 (lib_ox L) body) k) = Inr v"
    if "ox_is_base64 (lib_ox L) body"
    by (rule dec) (use from_base64_shorter [OF libs_okD(5) [OF assms(1)] that] assms(3) in simp)
  then show ?thesis
    using dec [OF assms(3)] by (auto simp: decrypt_response_def split: option.splits)
qed

text \<open>For the witnesses: a node that publishes the public key of its secret key, and a path of it alone.\<close>

definition ref_node_keys :: x25519_keypair where
  "ref_node_keys = (onion ref_node, replicate 32 1)"

lemma ref_node_honest: "honest_keys (lib_na ref_libs) ref_node ref_node_keys"
  by (simp add: honest_keys_def ref_libs_simps ref_node_keys_def ref_node_def ref_sodium_def ref_public_def
      numeral_eq_Suc)

definition ref_node_path :: onion_path where
  "ref_node_path = \<lparr>hops = [ref_node], remote = Remote_SNode ref_node\<rparr>"

lemma ref_node_sendable:
  "sendable ref_libs ref_node_path [ref_node_keys] (str ''hi'') (jenc (snode_ControlData ref_json ref_node))"
  using ref_node_honest
  by (simp add: sendable_def ref_node_path_def ref_libs_simps)
    (simp add: ref_node_def ref_json_def snode_ControlData_def ascii_def str_def)

text \<open>
  C9. Whatever can be read can be answered: when the nodes of a path, whoever made the onion and
  whatever encryption types it names, take it apart to a payload, the last one's \<open>transformReply\<close>
  encrypts every reply (up to the sizes OpenSSL takes) without an exception.
\<close>

theorem peeled_answerable:
  assumes "libs_ok L" and "peel_path L keys body = Inr (dests, junk)" and "length reply + 16 < 2 ^ 31"
  shows "\<exists>d q'. transformReply junk reply q = (Inr d, q')"
  using assms(2,1)
proof (induction L keys body arbitrary: dests rule: peel_path.induct)
  case (2 L k body)
  then have "ParseJunk L k body = Inr junk" by (auto simp: ebind_eq_Inr)
  then show ?case by (rule ParseJunk_answerable [OF 2(2) _ assms(3)])
qed (auto simp: ebind_eq_Inr)

theorem peeled_answerable_witness:
  "\<exists>om r' dests junk d q'. MakeOnion ref_libs xchacha20 (str ''hi'') ref_node_path 0 = (Inr om, r') \<and>
    peel_path ref_libs [ref_node_keys] (ciphertext om) = Inr (dests, junk) \<and>
    transformReply junk (str ''yes'') 8 = (Inr d, q')"
proof -
  have "\<exists>om r' dests junk. MakeOnion ref_libs xchacha20 (str ''hi'') ref_node_path 0 = (Inr om, r') \<and>
      peel_path ref_libs [ref_node_keys] (ciphertext om) = Inr (dests, junk)"
    using MakeOnion_arrives [OF ref_libs_ok _ ref_node_sendable, of xchacha20 0]
    by (auto simp: onion_arrives_def)
  then obtain om r' dests junk where o: "MakeOnion ref_libs xchacha20 (str ''hi'') ref_node_path 0 = (Inr om, r')"
      "peel_path ref_libs [ref_node_keys] (ciphertext om) = Inr (dests, junk)"
    by blast
  have "length (str ''yes'') + 16 < 2 ^ 31" by (simp add: str_def)
  from peeled_answerable [OF ref_libs_ok o(2) this, of 8] o show ?thesis by blast
qed

subsection \<open>What a client needs of a transport\<close>

text \<open>
  The interface \<open>Transport_Base\<close>, seen from the client: \<open>deliver om s\<close> is what \<open>SendPayload\<close> calls its
  response handler with, and \<open>carries n body d s\<close> says that the network, in state \<open>s\<close>, answers \<open>d\<close> to
  \<open>body\<close> sent to \<open>n\<close>. The law: the ciphertext of the payload goes, unchanged, to the first hop
  of its path, and the answer comes back unchanged. Under that law alone a request is answered.
\<close>

definition response_handler ::
    "onion_payload \<Rightarrow> (bytes option \<Rightarrow> 'a result) \<Rightarrow> 'a result \<Rightarrow> bytes option \<Rightarrow> 'a result" where
  "response_handler om handler unanswered got =
     (case got of Some ct \<Rightarrow> MakeDecrypter om handler ct | None \<Rightarrow> unanswered)"

locale payload_transport =
  fixes deliver :: "onion_payload \<Rightarrow> 's \<Rightarrow> bytes option result \<times> 's"
    and carries :: "snode_info \<Rightarrow> bytes \<Rightarrow> bytes \<Rightarrow> 's \<Rightarrow> bool"
  assumes deliver_carried:
    "Edge (path om) = Inr n \<Longrightarrow> carries n (ciphertext om) d s \<Longrightarrow> fst (deliver om s) = Inr (Some d)"
begin

lemma request_answered:
  assumes "libs_ok L" and "sendable L p keys payload control"
    and "maker = OnionMaker_aesgcm \<or> maker = OnionMaker_xchacha20"
    and "length answer + 1 < 2 ^ 31"
  obtains om r' dests junk where "maker_MakeOnion L maker payload p r = (Inr om, r')"
    and "path om = p" and "hops p \<noteq> []" and "peel_path L keys (ciphertext om) = Inr (dests, junk)"
    and "dests = map (\<lambda>n. key_hex (lib_ox L) (identity n)) (tl (hops p))"
    and "junk_payload junk = encode_size (lib_ox L) (length payload) @ payload @ control"
    and "\<And>q. \<exists>d q'. transformReply junk answer q = (Inr d, q')"
    and "\<And>q d q' s. transformReply junk answer q = (Inr d, q') \<Longrightarrow>
      carries (hd (hops p)) (ciphertext om) d s \<Longrightarrow>
      ebind (fst (deliver om s)) (response_handler om handler unanswered) = handler (Some answer)"
proof -
  obtain t where t: "maker = OnionMaker_Impl t" "t = aes_gcm \<or> t = xchacha20"
    using assms(3) by (auto simp: OnionMaker_aesgcm_def OnionMaker_xchacha20_def)
  obtain om r' a A junk where om: "MakeOnion L t payload p r = (Inr om, r')"
      and arr: "onion_arrives L t p keys payload control om a A junk"
    using MakeOnion_arrives [OF assms(1) t(2) assms(2)] by metis
  have fits: "message_fits t (length answer)" using t(2) assms(4) by auto
  have reply: "\<exists>d q'. transformReply junk answer q = (Inr d, q') \<and>
      decrypt (lib_na L) (lib_evp L) (client_channel a A) t d (onion (last (hops p))) = Inr answer" for q
    using arrived_reply [OF assms(1) fits arr sendable_last [OF assms(2)]] .
  have "hops p \<noteq> []" using assms(2) by (simp add: sendable_def)
  then have edge: "Edge (path om) = Inr (hd (hops p))"
    using arr by (cases "hops p") (simp_all add: onion_arrives_def)
  have answered: "ebind (fst (deliver om s)) (response_handler om handler unanswered) = handler (Some answer)"
    if "transformReply junk answer q = (Inr d, q')" and "carries (hd (hops p)) (ciphertext om) d s"
    for q d q' s
  proof -
    have "decrypt (lib_na L) (lib_evp L) (client_channel a A) t d (onion (last (hops p))) = Inr answer"
      using reply [of q] that(1) by auto
    then have "maybeDecryptResponse om d = Inr (Some answer)"
      using arr decrypt_response_hit by (auto simp: onion_arrives_def)
    then show ?thesis
      using deliver_carried [OF edge that(2)] by (simp add: response_handler_def MakeDecrypter_def)
  qed
  show ?thesis
  proof (rule that [of om r' _ junk])
    show "\<exists>d q'. transformReply junk answer q = (Inr d, q')" for q
      using reply by blast
  qed (use om arr \<open>hops p \<noteq> []\<close> answered in \<open>simp_all add: onion_arrives_def frame_fold t(1)\<close>)
qed

end

end
