(* ===== verification/Onion_Reference.thy ===== *)
theory Onion_Reference
  imports Onion_Delivery
begin

text \<open>
  What \<open>MakeOnion\<close> (onionreq/onion_maker.cpp) computes, without its loop: the onion for a path is the
  onion for the rest of the path, framed with the routing data for its first hop, sealed for that
  hop. The loop of the code, which walks the reversed path with two iterators, is equal to that
  definition, draw by draw of the random generator and error by error.
\<close>

definition seal_for ::
    "('r, 'j) libs \<Rightarrow> enc_type \<Rightarrow> bytes \<Rightarrow> snode_info \<Rightarrow> ('r, bytes \<times> x25519_pubkey \<times> channel) eff" where
  "seal_for L t data n =
     sbind (crypto_box_keypair (lib_na L)) (\<lambda>(A, a).
     sbind (encrypt (lib_na L) (lib_evp L) (client_channel a A) t data (onion n)) (\<lambda>blob.
     lift (Inr (blob, A, client_channel a A))))"

text \<open>The channel that comes out is the one of the last hop, which the reply is sealed with.\<close>

fun onion_of ::
    "('r, 'j) libs \<Rightarrow> enc_type \<Rightarrow> bytes \<Rightarrow> snode_info \<Rightarrow> snode_info list \<Rightarrow>
     ('r, bytes \<times> x25519_pubkey \<times> channel) eff" where
  "onion_of L t core n [] = seal_for L t core n"
| "onion_of L t core n (n' # ns) =
     sbind (onion_of L t core n' ns) (\<lambda>(blob, A, e).
     sbind (lift (json_dump (lib_js L) (js_strings (lib_js L) (routing_members (lib_ox L) t n' A)))) (\<lambda>routing.
     sbind (seal_for L t (json_frame (lib_ox L) blob routing) n) (\<lambda>(blob', A', e').
     lift (Inr (blob', A', e)))))"

definition onion_request ::
    "('r, 'j) libs \<Rightarrow> enc_type \<Rightarrow> bytes \<Rightarrow> onion_path \<Rightarrow> ('r, onion_payload) eff" where
  "onion_request L t payload p =
     sbind (lift (json_dump (lib_js L) (remote_ControlData (lib_js L) (remote p)))) (\<lambda>control.
     sbind (onion_of L t (json_frame (lib_ox L) payload control) (hd (hops p)) (tl (hops p))) (\<lambda>(blob, A, e).
     sbind (lift (json_dump (lib_js L) (js_strings (lib_js L) (entry_members (lib_ox L) t A)))) (\<lambda>entry.
     lift (Inr \<lparr>ciphertext = json_frame (lib_ox L) blob entry, path = p,
       maybeDecryptResponse = decrypt_response L t e (onion (last (hops p)))\<rparr>))))"

subsection \<open>Lemmas\<close>

lemmas sbind_laws = sbind_assoc sbind_lift_Inr sbind_return case_prod_beta'

lemma wrap_one:
  "sbind (wrap_hops L t prev [it] A blob) f =
    sbind (lift (json_dump (lib_js L) (js_strings (lib_js L) (routing_members (lib_ox L) t prev A)))) (\<lambda>routing.
    sbind (seal_for L t (json_frame (lib_ox L) blob routing) it) (\<lambda>(blob', A', e'). f (blob', A')))"
  by (simp add: seal_for_def frame_fold Let_def sbind_laws)

lemma wrap_hops_snoc:
  "wrap_hops L t prev (xs @ [it]) A blob =
    sbind (wrap_hops L t prev xs A blob) (\<lambda>(blob, A). wrap_hops L t (last (prev # xs)) [it] A blob)"
proof (induction xs arbitrary: prev A blob)
  case Nil
  then show ?case by (simp only: append_Nil wrap_hops.simps(1) sbind_lift_Inr prod.case last.simps if_True simp_thms)
next
  case (Cons x xs)
  have "wrap_hops L t x (xs @ [it]) =
      (\<lambda>A blob. sbind (wrap_hops L t x xs A blob) (\<lambda>(blob, A). wrap_hops L t (last (x # xs)) [it] A blob))"
    by (rule ext, rule ext, rule Cons.IH)
  moreover have "last (prev # x # xs) = last (x # xs)" by simp
  ultimately show ?case
    by (simp only: append_Cons wrap_hops.simps(2) sbind_assoc Let_def case_prod_beta')
qed

text \<open>The loop, with the channel of the last hop carried along.\<close>

definition from_loop ::
    "('r, 'j) libs \<Rightarrow> enc_type \<Rightarrow> bytes \<Rightarrow> snode_info \<Rightarrow> snode_info list \<Rightarrow>
     ('r, bytes \<times> x25519_pubkey \<times> channel) eff" where
  "from_loop L t core lst rest =
     sbind (seal_for L t core lst) (\<lambda>(blob, A, e).
     sbind (wrap_hops L t lst rest A blob) (\<lambda>(blob', A'). lift (Inr (blob', A', e))))"

lemma from_loop_snoc:
  "from_loop L t core lst (xs @ [it]) =
    sbind (from_loop L t core lst xs) (\<lambda>(blob, A, e).
    sbind (lift (json_dump (lib_js L) (js_strings (lib_js L) (routing_members (lib_ox L) t (last (lst # xs)) A)))) (\<lambda>routing.
    sbind (seal_for L t (json_frame (lib_ox L) blob routing) it) (\<lambda>(blob', A', e'). lift (Inr (blob', A', e)))))"
  unfolding from_loop_def wrap_hops_snoc sbind_assoc case_prod_beta sbind_lift_Inr fst_conv snd_conv wrap_one ..

lemma onion_of_loop:
  "onion_of L t core (hd (rev (lst # rest))) (tl (rev (lst # rest))) = from_loop L t core lst rest"
proof (induction rest rule: rev_induct)
  case Nil
  then show ?case by (simp add: from_loop_def sbind_laws)
next
  case (snoc it xs)
  obtain h ns where h: "rev (lst # xs) = h # ns" by (cases "rev (lst # xs)") simp_all
  then have "h = last (lst # xs)" by (metis hd_rev list.sel(1))
  then show ?case
    using snoc.IH h by (simp add: from_loop_snoc)
qed

subsection \<open>Properties\<close>

text \<open>
  C4. The maker's loop over the reversed path is the recursion over the path: for every path with a
  hop and every library, well-behaved or not, \<open>MakeOnion\<close> gives the same onion, the same reply
  closure, the same exception and the same use of the random generator as \<open>onion_request\<close>.
\<close>

theorem MakeOnion_equals_recursion:
  assumes "hops p \<noteq> []"
  shows "MakeOnion L t payload p = onion_request L t payload p"
proof -
  obtain lst rest where rev: "rev (hops p) = lst # rest"
    using assms by (metis rev_is_Nil_conv neq_Nil_conv)
  then have hops: "hops p = rev (lst # rest)" by (metis rev_rev_ident)
  then have last: "last (hops p) = lst" by simp
  have "onion_of L t core (hd (hops p)) (tl (hops p)) = from_loop L t core lst rest" for core
    unfolding hops by (rule onion_of_loop)
  then show ?thesis
    unfolding MakeOnion_def onion_request_def rev last
    by (simp add: from_loop_def seal_for_def frame_fold Let_def sbind_laws)
qed

theorem MakeOnion_equals_recursion_witness:
  "MakeOnion ref_libs aes_gcm (str ''hi'') ref_node_path = onion_request ref_libs aes_gcm (str ''hi'') ref_node_path"
  by (rule MakeOnion_equals_recursion) (simp add: ref_node_path_def)

end
