(* ===== verification/Sampling.thy ===== *)
theory Sampling
  imports Reference_Libs
begin

text \<open>
  onionreq/random.hpp: the generator, and the choice of one element of a range. The code draws with
  \<open>std::sample\<close> of the standard library, modelled first; the algorithm of the library's
  \<open>uniform_int_distribution\<close> is left open: it is the argument \<open>draw\<close>, whose first argument is the
  inclusive upper bound; \<open>draw_ok\<close> is what the standard promises of its result.
\<close>

subsection \<open>The generator\<close>

definition PRNG_min :: "64 word" where "PRNG_min = 0"
definition PRNG_max :: "64 word" where "PRNG_max = - 1"

definition PRNG_next :: "'r sodium \<Rightarrow> 'r \<Rightarrow> 64 word \<times> 'r" where
  "PRNG_next N r = (case na_randombytes N 8 r of (bs, r') \<Rightarrow> (le_word64 bs, r'))"

type_synonym 'g draw = "nat \<Rightarrow> 'g \<Rightarrow> nat \<times> 'g"

definition draw_ok :: "'g draw \<Rightarrow> bool" where
  "draw_ok draw \<longleftrightarrow> (\<forall>b g. fst (draw b g) \<le> b)"

subsection \<open>The standard library's \<open>std::sample\<close>\<close>

text \<open>
  On a forward range it is selection sampling: it goes through the range once and keeps an element
  when a number drawn uniformly below the count of elements left is below the count still wanted.
\<close>

fun sample_loop :: "'g draw \<Rightarrow> 'a list \<Rightarrow> nat \<Rightarrow> 'g \<Rightarrow> 'a list \<times> 'g" where
  "sample_loop draw [] n g = ([], g)"
| "sample_loop draw (x # xs) n g =
     (if n = 0 then ([], g)
      else case draw (length xs) g of (k, g') \<Rightarrow>
        if k < n
        then (case sample_loop draw xs (n - 1) g' of (ys, g'') \<Rightarrow> (x # ys, g''))
        else sample_loop draw xs n g')"

definition std_sample :: "'g draw \<Rightarrow> 'a list \<Rightarrow> nat \<Rightarrow> 'g \<Rightarrow> 'a list \<times> 'g" where
  "std_sample draw xs n g = sample_loop draw xs (min n (length xs)) g"

subsection \<open>Picking one element\<close>

text \<open>\<open>build\<close> is the construction \<open>Out_Type{...}\<close>.\<close>

definition pick_random :: "'g draw \<Rightarrow> ('a \<Rightarrow> 'b result) \<Rightarrow> 'a list \<Rightarrow> 'g \<Rightarrow> 'b result \<times> 'g" where
  "pick_random draw build xs g =
     (case std_sample draw xs (length xs) g of (v, g') \<Rightarrow>
        (case v of
           [] \<Rightarrow> Inl (Invalid_Argument (str ''selection range empty''))
         | x # _ \<Rightarrow> build x, g'))"

definition pick_random_from :: "'g draw \<Rightarrow> ('a \<Rightarrow> 'b result) \<Rightarrow> 'a list \<Rightarrow> 'g \<Rightarrow> 'b result \<times> 'g" where
  "pick_random_from draw build xs g = pick_random draw build xs g"

subsection \<open>Two distributions\<close>

text \<open>Drawing from the generator, reduced modulo the size of the range; and prescribed draws.\<close>

definition prng_draw :: "'r sodium \<Rightarrow> 'r draw" where
  "prng_draw N b r = (case PRNG_next N r of (w, r') \<Rightarrow> (unat w mod (b + 1), r'))"

fun list_draw :: "nat list draw" where
  "list_draw b [] = (0, [])"
| "list_draw b (k # ks) = (min b k, ks)"

lemma prng_draw_ok: "draw_ok (prng_draw N)"
  by (auto simp: draw_ok_def prng_draw_def split: prod.splits)

lemma list_draw_ok: "draw_ok list_draw"
proof -
  have "fst (list_draw b ks) \<le> b" for b ks by (cases ks) auto
  then show ?thesis by (simp add: draw_ok_def)
qed

subsection \<open>Lemmas\<close>

lemma sample_loop_spec:
  assumes "draw_ok draw" and "n \<le> length xs"
  shows "subseq (fst (sample_loop draw xs n g)) xs \<and> length (fst (sample_loop draw xs n g)) = n"
  using assms(2)
proof (induction xs arbitrary: n g)
  case (Cons x xs)
  obtain k g' where k: "draw (length xs) g = (k, g')" by fastforce
  have "k \<le> length xs" using assms(1) k unfolding draw_ok_def by (metis fst_conv)
  then show ?case
    using Cons.IH [of "n - 1" g'] Cons.IH [of n g'] Cons.prems k
    by (auto split: prod.splits)
qed simp

lemma std_sample_spec:
  assumes "draw_ok draw"
  shows "subseq (fst (std_sample draw xs n g)) xs" and "length (fst (std_sample draw xs n g)) = min n (length xs)"
  using sample_loop_spec [OF assms, of "min n (length xs)" xs g] by (simp_all add: std_sample_def)

lemma std_sample_all:
  assumes "draw_ok draw"
  shows "fst (std_sample draw xs (length xs) g) = xs"
  using std_sample_spec [OF assms, of xs "length xs" g] by (simp add: subseq_same_length)

lemma sample_loop_reaches:
  "subseq ys xs \<Longrightarrow> \<exists>ds. sample_loop list_draw xs (length ys) ds = (ys, [])"
proof (induction rule: list_emb.induct)
  case (list_emb_Nil xs)
  then show ?case by (intro exI [of _ "[]"]) (cases xs; simp)
next
  case (list_emb_Cons ys xs x)
  then obtain ds where ds: "sample_loop list_draw xs (length ys) ds = (ys, [])" by blast
  show ?case
  proof (cases ys)
    case Nil
    then show ?thesis by (intro exI [of _ "[]"]) simp
  next
    case (Cons y ys')
    have "length ys \<le> length xs" using list_emb_Cons.hyps by (rule list_emb_length)
    with ds Cons show ?thesis by (intro exI [of _ "length xs # ds"]) simp
  qed
next
  case (list_emb_Cons2 x y xs ys)
  then obtain ds where ds: "sample_loop list_draw ys (length xs) ds = (xs, [])" by blast
  then show ?case
    using list_emb_Cons2 by (intro exI [of _ "0 # ds"]) simp
qed

lemma std_sample_reaches:
  assumes "subseq ys xs" and "length ys = min n (length xs)"
  shows "\<exists>ds. std_sample list_draw xs n ds = (ys, [])"
  using sample_loop_reaches [OF assms(1)] assms(2) by (simp add: std_sample_def)

lemma pick_random_value:
  assumes "draw_ok draw"
  shows "fst (pick_random_from draw build xs g) =
    (case xs of
       [] \<Rightarrow> Inl (Invalid_Argument (str ''selection range empty''))
     | x # _ \<Rightarrow> build x)"
  using std_sample_all [OF assms, of xs g]
  by (auto simp: pick_random_from_def pick_random_def split: prod.splits)

subsection \<open>Properties\<close>

text \<open>
  C38. \<open>pick_random\<close> is not random: it samples as many elements as the range has, which keeps all of
  them in place, and takes the first. The outcome is the first element of the range whatever is
  drawn; an empty range throws.
\<close>

theorem pick_random_constant:
  assumes "draw_ok draw"
  shows "fst (pick_random_from draw build xs g) =
    (case xs of
       [] \<Rightarrow> Inl (Invalid_Argument (str ''selection range empty''))
     | x # _ \<Rightarrow> build x)"
  using assms by (rule pick_random_value)

theorem pick_random_constant_witness:
  "fst (pick_random_from (prng_draw ref_sodium) Inr [7 :: nat, 8, 9] 4) = Inr 7"
  using pick_random_constant [OF prng_draw_ok [of ref_sodium], of Inr "[7 :: nat, 8, 9]" 4] by simp

end
