(* ===== verification/Containers.thy ===== *)
theory Containers
  imports Prelude "HOL-Library.Multiset"
begin

text \<open>
  \<open>std::unordered_set\<close> and \<open>std::unordered_map\<close>. The code iterates over both, and where an insertion
  puts a new element in the iteration order is up to the standard library: a container is the
  list of its elements in iteration order, and \<open>place\<close> is the library's insertion of an element
  that is not there yet. \<open>place_ok\<close> is all the standard promises of it.
\<close>

type_synonym 'a placement = "'a list \<Rightarrow> 'a \<Rightarrow> 'a list"

definition place_ok :: "'a placement \<Rightarrow> bool" where
  "place_ok place \<longleftrightarrow> (\<forall>xs x. mset (place xs x) = add_mset x (mset xs))"

text \<open>\<open>set.insert(x)\<close>, with the set's equality.\<close>

definition uset_insert :: "'a placement \<Rightarrow> ('a \<Rightarrow> 'a \<Rightarrow> bool) \<Rightarrow> 'a list \<Rightarrow> 'a \<Rightarrow> 'a list" where
  "uset_insert place eq xs x = (if list_ex (\<lambda>y. eq y x) xs then xs else place xs x)"

text \<open>\<open>map[k] = v\<close> and \<open>map.emplace(k, v)\<close>.\<close>

definition umap_assign :: "('k \<times> 'v) placement \<Rightarrow> ('k \<times> 'v) list \<Rightarrow> 'k \<Rightarrow> 'v \<Rightarrow> ('k \<times> 'v) list" where
  "umap_assign place m k v =
     (if map_of m k = None then place m (k, v)
      else map (\<lambda>(k', v'). (k', if k' = k then v else v')) m)"

definition umap_emplace :: "('k \<times> 'v) placement \<Rightarrow> ('k \<times> 'v) list \<Rightarrow> 'k \<Rightarrow> 'v \<Rightarrow> ('k \<times> 'v) list" where
  "umap_emplace place m k v = (if map_of m k = None then place m (k, v) else m)"

text \<open>Two placements, for examples: at the front and at the end.\<close>

definition place_front :: "'a placement" where "place_front xs x = x # xs"
definition place_back :: "'a placement" where "place_back xs x = xs @ [x]"

subsection \<open>Lemmas\<close>

lemma place_ok_examples: "place_ok place_front" "place_ok place_back"
  by (simp_all add: place_ok_def place_front_def place_back_def)

lemma place_okD:
  assumes "place_ok place"
  shows "set (place xs x) = insert x (set xs)" "length (place xs x) = Suc (length xs)"
    "distinct (map f (place xs x)) \<longleftrightarrow> distinct (map f xs) \<and> f x \<notin> f ` set xs"
proof -
  have eq: "mset (place xs x) = mset (x # xs)" using assms by (simp add: place_ok_def)
  then show "set (place xs x) = insert x (set xs)" by (metis list.simps(15) set_mset_mset)
  from eq show "length (place xs x) = Suc (length xs)" by (metis length_Cons mset_eq_length)
  from eq have "mset (map f (place xs x)) = mset (map f (x # xs))" by (metis mset_map)
  then show "distinct (map f (place xs x)) \<longleftrightarrow> distinct (map f xs) \<and> f x \<notin> f ` set xs"
    using mset_eq_imp_distinct_iff by fastforce
qed

lemma map_of_place:
  assumes "place_ok place" and "distinct (map fst m)" and "map_of m k = None"
  shows "map_of (place m (k, v)) k' = (if k' = k then Some v else map_of m k')"
proof -
  have new: "k \<notin> fst ` set m" using assms(3) by (simp add: map_of_eq_None_iff)
  then have "distinct (map fst (place m (k, v)))" using assms(1,2) by (simp add: place_okD)
  moreover have "distinct (map fst ((k, v) # m))" using assms(2) new by simp
  moreover have "set (place m (k, v)) = set ((k, v) # m)" using assms(1) by (simp add: place_okD)
  ultimately have "map_of (place m (k, v)) = map_of ((k, v) # m)"
    by (metis map_of_inject_set)
  then show ?thesis by simp
qed

lemma uset_insert_set:
  "place_ok place \<Longrightarrow> set (uset_insert place eq xs x) =
    (if \<exists>y \<in> set xs. eq y x then set xs else insert x (set xs))"
  by (auto simp: uset_insert_def list_ex_iff place_okD)

lemma uset_insert_length:
  "place_ok place \<Longrightarrow> length (uset_insert place eq xs x) =
    (if \<exists>y \<in> set xs. eq y x then length xs else Suc (length xs))"
  by (auto simp: uset_insert_def list_ex_iff place_okD)

lemma uset_insert_member: "eq x x \<Longrightarrow> x \<in> set xs \<Longrightarrow> uset_insert place eq xs x = xs"
  by (auto simp: uset_insert_def list_ex_iff)

lemma uset_insert_distinct:
  assumes "place_ok place" and "\<And>x y. eq x y \<longleftrightarrow> f x = f y" and "distinct (map f xs)"
  shows "distinct (map f (uset_insert place eq xs x))"
  using assms(1,3) by (auto simp: uset_insert_def list_ex_iff place_okD assms(2))

subsection \<open>Maps, as interfaces\<close>

text \<open>
  A keyed container, seen through its lookup; assignment, where the last write wins, and
  emplacement, where the first one does.
\<close>

locale keyed =
  fixes ok :: "'p \<Rightarrow> bool"
    and inv :: "'m \<Rightarrow> bool"
    and lookup :: "'m \<Rightarrow> 'k \<Rightarrow> 'v option"
    and put :: "'p \<Rightarrow> 'm \<Rightarrow> 'k \<Rightarrow> 'v \<Rightarrow> 'm"
  assumes inv_put: "ok p \<Longrightarrow> inv m \<Longrightarrow> inv (put p m k v)"
    and lookup_other: "ok p \<Longrightarrow> inv m \<Longrightarrow> k' \<noteq> k \<Longrightarrow> lookup (put p m k v) k' = lookup m k'"
begin

definition put_all :: "'p \<Rightarrow> 'm \<Rightarrow> ('k \<times> 'v) list \<Rightarrow> 'm" where
  "put_all p m kvs = fold (\<lambda>(k, v) m. put p m k v) kvs m"

lemma put_all_simps [simp]:
  "put_all p m [] = m"
  "put_all p m ((k, v) # kvs) = put_all p (put p m k v) kvs"
  by (simp_all add: put_all_def)

lemma inv_put_all: "ok p \<Longrightarrow> inv m \<Longrightarrow> inv (put_all p m kvs)"
  by (induction kvs arbitrary: m) (auto simp: inv_put)

lemma lookup_untouched:
  "ok p \<Longrightarrow> inv m \<Longrightarrow> k \<notin> fst ` set kvs \<Longrightarrow> lookup (put_all p m kvs) k = lookup m k"
  by (induction kvs arbitrary: m) (auto simp: inv_put lookup_other)

end

locale assigning = keyed +
  assumes lookup_put: "ok p \<Longrightarrow> inv m \<Longrightarrow> lookup (put p m k v) k = Some v"
begin

lemma last_wins:
  "ok p \<Longrightarrow> inv m \<Longrightarrow> lookup (put_all p m kvs) k =
    (case map_of (rev kvs) k of None \<Rightarrow> lookup m k | Some v \<Rightarrow> Some v)"
proof (induction kvs arbitrary: m)
  case (Cons kv kvs)
  obtain a v where kv: "kv = (a, v)" by fastforce
  show ?case
    using Cons.IH [OF Cons.prems(1) inv_put [OF Cons.prems, of a v]] Cons.prems
    by (cases "k = a")
      (auto simp: kv lookup_put lookup_other map_add_def split: option.splits)
qed simp

end

locale first_wins = keyed +
  assumes lookup_put: "ok p \<Longrightarrow> inv m \<Longrightarrow>
    lookup (put p m k v) k = Some (case lookup m k of None \<Rightarrow> v | Some v' \<Rightarrow> v')"
begin

lemma entry_stable:
  assumes "ok p" and "inv m" and "lookup m k = Some v"
  shows "lookup (put p m k' v') k = Some v"
  using assms by (cases "k' = k") (simp_all add: lookup_put lookup_other)

lemma entry_stable_all:
  "ok p \<Longrightarrow> inv m \<Longrightarrow> lookup m k = Some v \<Longrightarrow> lookup (put_all p m kvs) k = Some v"
  by (induction kvs arbitrary: m) (auto simp: inv_put entry_stable)

end

lemma map_of_assign_other:
  assumes "place_ok place" and "distinct (map fst m)" and "k' \<noteq> k"
  shows "map_of (umap_assign place m k v) k' = map_of m k'"
proof (cases "map_of m k = None")
  case True
  then show ?thesis using assms by (simp add: umap_assign_def map_of_place)
next
  case False
  have "map_of (map (\<lambda>(a, b). (a, if a = k then v else b)) m) k' = map_of m k'"
    using assms(3) by (induction m) auto
  with False show ?thesis unfolding umap_assign_def by (simp only: if_False)
qed

lemma map_of_assign_same:
  assumes "place_ok place" and "distinct (map fst m)"
  shows "map_of (umap_assign place m k v) k = Some v"
proof (cases "map_of m k = None")
  case True
  then show ?thesis using assms by (simp add: umap_assign_def map_of_place)
next
  case False
  then have "map_of (map (\<lambda>(a, b). (a, if a = k then v else b)) m) k = Some v"
    by (induction m) (auto split: if_splits)
  with False show ?thesis unfolding umap_assign_def by (simp only: if_False)
qed

lemma umap_assign_distinct:
  assumes "place_ok place" and "distinct (map fst m)"
  shows "distinct (map fst (umap_assign place m k v))"
proof -
  have "map fst (map (\<lambda>(a, b). (a, if a = k then v else b)) m) = map fst m"
    by (simp add: case_prod_beta comp_def)
  then have "distinct (map fst (map (\<lambda>(a, b). (a, if a = k then v else b)) m))"
    using assms(2) by (simp only:)
  then show ?thesis
    using assms unfolding umap_assign_def by (simp only: split: if_split) (simp add: place_okD map_of_eq_None_iff)
qed

interpretation umap_assign: assigning place_ok "\<lambda>m. distinct (map fst m)" map_of umap_assign
  by unfold_locales (simp_all add: umap_assign_distinct map_of_assign_other map_of_assign_same)

interpretation umap_emplace: first_wins place_ok "\<lambda>m. distinct (map fst m)" map_of umap_emplace
  by unfold_locales
    (auto simp: umap_emplace_def place_okD map_of_eq_None_iff map_of_place split: option.splits)

end
