(* ===== verification/Path_Selection.thy ===== *)
theory Path_Selection
  imports Onion Sampling Containers
begin

text \<open>
  The path selection of onionreq/consensus.hpp and consensus.cpp (\<open>PathSelection_Base\<close> and
  \<open>PathSelection_Default\<close>). Operations are atomic steps on the state here; that the mutex makes them
  so is proved in \<open>Selector_Threads\<close>. The containers are in their iteration order.
\<close>

record path_selection =
  snodelist :: "(ed25519_pubkey \<times> snode_info) list"
  edges :: "snode_info list"

definition new_PathSelection :: path_selection where
  "new_PathSelection = \<lparr>snodelist = [], edges = []\<rparr>"

definition StoreNodeList :: "(ed25519_pubkey \<times> snode_info) list \<Rightarrow> path_selection \<Rightarrow> path_selection" where
  "StoreNodeList nodes s = s\<lparr>snodelist := nodes\<rparr>"

definition DefaultHopLength :: nat where "DefaultHopLength = 4"
definition MaxEdges :: nat where "MaxEdges = 4"

definition MaybeSelectHopsTo ::
    "snode_info placement \<Rightarrow> 'g draw \<Rightarrow> remote_resource \<Rightarrow> path_selection \<Rightarrow> 'g \<Rightarrow>
     onion_path option result \<times> path_selection \<times> 'g" where
  "MaybeSelectHopsTo place draw rem s g =
     (let (sampled, g) = std_sample draw (snodelist s) DefaultHopLength g;
          p = \<lparr>hops = map snd sampled, remote = rem\<rparr>;
          (chosen, g) =
            (if MaxEdges \<le> length (edges s)
             then (case pick_random_from draw Inr (edges s) g of (e, g) \<Rightarrow>
                     (ebind e (\<lambda>e. set_Edge e p), g))
             else (Inr p, g))
      in case ebind chosen (\<lambda>p. ebind (Edge p) (\<lambda>e. Inr (p, e))) of
           Inl err \<Rightarrow> (Inl err, s, g)
         | Inr (p, e) \<Rightarrow>
             (Inr (Some p), s\<lparr>edges := uset_insert place snode_eq (edges s) e\<rparr>, g))"

definition OnionPathFailed :: "onion_path \<Rightarrow> path_selection \<Rightarrow> path_selection" where
  "OnionPathFailed p s = s"

definition OnionPathSuccess :: "onion_path \<Rightarrow> path_selection \<Rightarrow> path_selection" where
  "OnionPathSuccess p s = s"

text \<open>
  The operations in any order, with the paths handed out. A selection that has no defined result
  is not a step.
\<close>

inductive selector_step ::
    "snode_info placement \<Rightarrow> 'g draw \<Rightarrow> path_selection \<times> 'g \<Rightarrow> onion_path list \<Rightarrow>
     path_selection \<times> 'g \<Rightarrow> bool"
  for place :: "snode_info placement" and draw :: "'g draw" where
  store: "selector_step place draw (s, g) [] (StoreNodeList nodes s, g)"
| select: "MaybeSelectHopsTo place draw rem s g = (Inr (Some p), s', g') \<Longrightarrow>
    selector_step place draw (s, g) [p] (s', g')"
| failed: "selector_step place draw (s, g) [] (OnionPathFailed p s, g)"
| success: "selector_step place draw (s, g) [] (OnionPathSuccess p s, g)"

inductive selector_run ::
    "snode_info placement \<Rightarrow> 'g draw \<Rightarrow> path_selection \<times> 'g \<Rightarrow> onion_path list \<Rightarrow>
     path_selection \<times> 'g \<Rightarrow> bool"
  for place :: "snode_info placement" and draw :: "'g draw" where
  stop: "selector_run place draw c [] c"
| step: "selector_run place draw c ps c' \<Longrightarrow> selector_step place draw c' qs c'' \<Longrightarrow>
    selector_run place draw c (ps @ qs) c''"

inductive_cases selector_stepE: "selector_step place draw (s, g) ps c"

subsection \<open>Lemmas\<close>

lemma snode_eq_refl [simp]: "snode_eq a a"
  by (simp add: snode_eq_def)

text \<open>The three outcomes of a selection, by what it found.\<close>

lemma MaybeSelect_empty:
  assumes "snodelist s = []" and "draw_ok draw"
  shows "\<exists>g'. MaybeSelectHopsTo place draw rem s g
    = (Inl (Undefined ''hops[0] of an empty path''), s, g')"
proof -
  obtain e g' where "pick_random_from draw Inr (edges s) g = (e, g')" by fastforce
  moreover have "e = Inr (hd (edges s))" if "MaxEdges \<le> length (edges s)"
    using pick_random_value [OF assms(2), of Inr "edges s" g] calculation that
    by (cases "edges s") (auto simp: MaxEdges_def)
  ultimately show ?thesis
    using assms(1)
    by (auto simp: MaybeSelectHopsTo_def std_sample_def set_Edge_def Edge_def Let_def)
qed

lemma MaybeSelect_few_edges:
  assumes "std_sample draw (snodelist s) DefaultHopLength g = (x # xs, g')" and "length (edges s) < MaxEdges"
  shows "MaybeSelectHopsTo place draw rem s g =
    (Inr (Some \<lparr>hops = map snd (x # xs), remote = rem\<rparr>),
     s\<lparr>edges := uset_insert place snode_eq (edges s) (snd x)\<rparr>, g')"
  using assms by (simp add: MaybeSelectHopsTo_def)

lemma MaybeSelect_full_edges:
  assumes "std_sample draw (snodelist s) DefaultHopLength g = (x # xs, g')"
    and "MaxEdges \<le> length (edges s)" and "draw_ok draw"
  shows "\<exists>g''. MaybeSelectHopsTo place draw rem s g =
    (Inr (Some \<lparr>hops = hd (edges s) # map snd xs, remote = rem\<rparr>), s, g'')"
proof -
  obtain e g'' where p: "pick_random_from draw Inr (edges s) g' = (e, g'')" by fastforce
  have ne: "edges s \<noteq> []" using assms(2) by (auto simp: MaxEdges_def)
  then have "e = Inr (hd (edges s))"
    using pick_random_value [OF assms(3), of Inr "edges s" g'] p by (cases "edges s") auto
  with p show ?thesis
    using assms(1,2) ne by (simp add: MaybeSelectHopsTo_def set_Edge_def uset_insert_member)
qed

lemma subseq_keeps_distinct: "subseq xs ys \<Longrightarrow> distinct ys \<Longrightarrow> distinct xs"
  using subseqs_distinctD [of xs ys] by simp

lemma subseq_subset: "subseq xs ys \<Longrightarrow> set xs \<subseteq> set ys"
  by (induction rule: list_emb.induct) auto

lemma sampled_nonempty:
  assumes "draw_ok draw" and "snodelist s \<noteq> []"
  obtains x xs g' where "std_sample draw (snodelist s) DefaultHopLength g = (x # xs, g')"
    and "subseq (x # xs) (snodelist s)" and "length (x # xs) = min 4 (length (snodelist s))"
proof -
  obtain ys g' where ys: "std_sample draw (snodelist s) DefaultHopLength g = (ys, g')" by fastforce
  then have "subseq ys (snodelist s)" "length ys = min 4 (length (snodelist s))"
    using std_sample_spec [OF assms(1), of "snodelist s" DefaultHopLength g]
    by (simp_all add: DefaultHopLength_def)
  with ys assms(2) that show ?thesis by (cases ys; cases "snodelist s") auto
qed

lemma selected_hops:
  assumes "std_sample draw (snodelist s) DefaultHopLength g = (x # xs, g')" and "draw_ok draw"
  shows "\<exists>s' g''. MaybeSelectHopsTo place draw rem s g =
    (Inr (Some \<lparr>hops = (if 4 \<le> length (edges s) then hd (edges s) else snd x) # map snd xs, remote = rem\<rparr>), s', g'')"
proof (cases "4 \<le> length (edges s)")
  case True
  then show ?thesis
    using MaybeSelect_full_edges [OF assms(1) _ assms(2), of place rem] by (auto simp: MaxEdges_def)
next
  case False
  then show ?thesis using MaybeSelect_few_edges [OF assms(1), of place rem] by (simp add: MaxEdges_def)
qed

text \<open>The set of edges: at most \<open>MaxEdges\<close>, no identity twice.\<close>

definition edges_ok :: "path_selection \<Rightarrow> bool" where
  "edges_ok s \<longleftrightarrow> length (edges s) \<le> MaxEdges \<and> distinct (map identity (edges s))"

lemma edges_ok_new: "edges_ok new_PathSelection"
  by (simp add: edges_ok_def new_PathSelection_def)

lemma edges_ok_select:
  assumes "place_ok place" and "draw_ok draw" and "edges_ok s"
    and "MaybeSelectHopsTo place draw rem s g = (r, s', g')"
  shows "edges_ok s'"
proof (cases "snodelist s")
  case Nil
  then show ?thesis using MaybeSelect_empty [OF Nil assms(2), of place rem g] assms(3,4) by auto
next
  case (Cons a as)
  then obtain x xs g1 where smp: "std_sample draw (snodelist s) DefaultHopLength g = (x # xs, g1)"
    using sampled_nonempty [OF assms(2)] by (metis list.distinct(1))
  show ?thesis
  proof (cases "MaxEdges \<le> length (edges s)")
    case True
    then show ?thesis using MaybeSelect_full_edges [OF smp True assms(2), of place rem] assms(3,4) by auto
  next
    case False
    have "distinct (map identity (uset_insert place snode_eq (edges s) (snd x)))"
      by (rule uset_insert_distinct [OF assms(1)]) (use assms(3) in \<open>auto simp: snode_eq_def edges_ok_def\<close>)
    then show ?thesis
      using MaybeSelect_few_edges [OF smp, of place rem] False assms(1,4)
      by (auto simp: edges_ok_def uset_insert_length)
  qed
qed

lemma edges_ok_step:
  "selector_step place draw (s, g) ps c' \<Longrightarrow> place_ok place \<Longrightarrow> draw_ok draw \<Longrightarrow> edges_ok s \<Longrightarrow>
    edges_ok (fst c')"
  by (erule selector_stepE)
    (auto simp: StoreNodeList_def OnionPathFailed_def OnionPathSuccess_def intro: edges_ok_select,
     simp add: edges_ok_def)

text \<open>
  A predicate that holds of every node the selector knows: no operation brings in other nodes, and
  paths are made of those.
\<close>

definition knows_only :: "(snode_info \<Rightarrow> bool) \<Rightarrow> path_selection \<Rightarrow> bool" where
  "knows_only Q s \<longleftrightarrow> (\<forall>(k, n) \<in> set (snodelist s). Q n) \<and> (\<forall>e \<in> set (edges s). Q e)"

lemma knows_only_new [simp]: "knows_only Q new_PathSelection"
  by (simp add: knows_only_def new_PathSelection_def)

lemma knows_only_store [simp]:
  "knows_only Q s \<Longrightarrow> \<forall>(k, n) \<in> set nodes. Q n \<Longrightarrow> knows_only Q (StoreNodeList nodes s)"
  by (simp add: knows_only_def StoreNodeList_def)

lemma select_cases:
  assumes "draw_ok draw" and "snodelist s \<noteq> []"
  obtains h x xs s' g' where "MaybeSelectHopsTo place draw rem s g
      = (Inr (Some \<lparr>hops = h # map snd xs, remote = rem\<rparr>), s', g')"
    and "subseq (x # xs) (snodelist s)" and "length xs < 4" and "snodelist s' = snodelist s"
    and "h = snd x \<and> edges s' = uset_insert place snode_eq (edges s) h \<or> h \<in> set (edges s) \<and> edges s' = edges s"
proof -
  obtain x xs g' where smp: "std_sample draw (snodelist s) DefaultHopLength g = (x # xs, g')"
      and sub: "subseq (x # xs) (snodelist s)" and len: "length (x # xs) = min 4 (length (snodelist s))"
    using sampled_nonempty [OF assms] by metis
  show thesis
  proof (cases "MaxEdges \<le> length (edges s)")
    case True
    then have "hd (edges s) \<in> set (edges s)" by (cases "edges s") (simp_all add: MaxEdges_def)
    moreover obtain g'' where "MaybeSelectHopsTo place draw rem s g
        = (Inr (Some \<lparr>hops = hd (edges s) # map snd xs, remote = rem\<rparr>), s, g'')"
      using MaybeSelect_full_edges [OF smp True assms(1), of place rem] by blast
    ultimately show thesis
      using sub len by (intro that [of "hd (edges s)" xs s g'' x]) simp_all
  next
    case False
    then have "MaybeSelectHopsTo place draw rem s g = (Inr (Some \<lparr>hops = snd x # map snd xs, remote = rem\<rparr>),
        s\<lparr>edges := uset_insert place snode_eq (edges s) (snd x)\<rparr>, g')"
      using MaybeSelect_few_edges [OF smp, of place rem] by simp
    with sub len show thesis
      by (intro that [of "snd x" xs "s\<lparr>edges := uset_insert place snode_eq (edges s) (snd x)\<rparr>" g' x]) simp_all
  qed
qed

lemma knows_only_select:
  assumes "MaybeSelectHopsTo place draw rem s g = (Inr (Some p), s', g')" and "draw_ok draw"
    and "place_ok place" and "knows_only Q s"
  shows "knows_only Q s'" and "\<forall>n \<in> set (hops p). Q n" and "remote p = rem"
    and "hops p \<noteq> []" and "length (hops p) \<le> 4"
proof -
  have "snodelist s \<noteq> []"
    using MaybeSelect_empty [OF _ assms(2), of s place rem g] assms(1) by auto
  then obtain h x xs t g1 where sel: "MaybeSelectHopsTo place draw rem s g
        = (Inr (Some \<lparr>hops = h # map snd xs, remote = rem\<rparr>), t, g1)"
      and sub': "subseq (x # xs) (snodelist s)" and len: "length xs < 4" and t: "snodelist t = snodelist s"
        "h = snd x \<and> edges t = uset_insert place snode_eq (edges s) h \<or> h \<in> set (edges s) \<and> edges t = edges s"
    by (rule select_cases [OF assms(2)])
  have p: "p = \<lparr>hops = h # map snd xs, remote = rem\<rparr>" "length xs < 4"
    and sub: "subseq (x # xs) (snodelist s)" "snodelist s' = snodelist s"
    and h: "h = snd x \<and> edges s' = uset_insert place snode_eq (edges s) h \<or> h \<in> set (edges s) \<and> edges s' = edges s"
    using assms(1) sel sub' len t by simp_all
  have Q: "\<forall>(k, n) \<in> set (snodelist s). Q n" "\<forall>e \<in> set (edges s). Q e"
    using assms(4) by (simp_all add: knows_only_def)
  then have "\<forall>y \<in> set (x # xs). Q (snd y)"
    using subseq_subset [OF sub(1)] by (auto simp: case_prod_beta dest: subsetD)
  with h Q show "knows_only Q s'" "\<forall>n \<in> set (hops p). Q n"
    by (auto simp: knows_only_def sub(2) p uset_insert_set [OF assms(3)] split: if_splits)
  show "remote p = rem" "hops p \<noteq> []" "length (hops p) \<le> 4" using p by simp_all
qed

text \<open>Once the set of edges is full, neither it nor the edge of any path changes.\<close>

lemma frozen_select:
  assumes "MaybeSelectHopsTo place draw rem s g = (Inr (Some p), s', g')" and "draw_ok draw"
    and "MaxEdges \<le> length (edges s)"
  shows "edges s' = edges s \<and> Edge p = Inr (hd (edges s))"
proof -
  have "snodelist s \<noteq> []"
    using MaybeSelect_empty [OF _ assms(2), of s place rem g] assms(1) by auto
  then obtain x xs g1 where "std_sample draw (snodelist s) DefaultHopLength g = (x # xs, g1)"
    using sampled_nonempty [OF assms(2)] by metis
  from MaybeSelect_full_edges [OF this assms(3,2), of place rem] assms(1) show ?thesis by auto
qed

lemma frozen_step:
  "selector_step place draw (s, g) ps c' \<Longrightarrow> draw_ok draw \<Longrightarrow> MaxEdges \<le> length (edges s) \<Longrightarrow>
    edges (fst c') = edges s \<and> (\<forall>p \<in> set ps. Edge p = Inr (hd (edges s)))"
  by (erule selector_stepE)
    (auto simp: StoreNodeList_def OnionPathFailed_def OnionPathSuccess_def dest: frozen_select)

lemma selector_run_edges_ok:
  assumes "selector_run place draw c ps c'" and "place_ok place" and "draw_ok draw" and "edges_ok (fst c)"
  shows "edges_ok (fst c')"
  using assms(1,4)
  by (induction rule: selector_run.induct) (metis edges_ok_step assms(2,3) prod.collapse)+

lemma selector_run_frozen:
  assumes "selector_run place draw c ps c'" and "draw_ok draw" and "MaxEdges \<le> length (edges (fst c))"
  shows "edges (fst c') = edges (fst c) \<and> (\<forall>p \<in> set ps. Edge p = Inr (hd (edges (fst c))))"
  using assms(1,3)
proof (induction rule: selector_run.induct)
  case (step c ps c' qs c'')
  then have "edges (fst c'') = edges (fst c') \<and> (\<forall>p \<in> set qs. Edge p = Inr (hd (edges (fst c'))))"
    using frozen_step [of place draw "fst c'" "snd c'" qs c'', OF _ assms(2)] by simp
  with step show ?case by auto
qed simp

subsection \<open>Properties\<close>

definition ref_nodes :: "nat \<Rightarrow> (ed25519_pubkey \<times> snode_info) list" where
  "ref_nodes n = map (\<lambda>i. (replicate 32 (word_of_nat i), ref_node\<lparr>identity := replicate 32 (word_of_nat i)\<rparr>)) [0..<n]"

definition ref_full_edges :: path_selection where
  "ref_full_edges = \<lparr>snodelist = ref_nodes 5, edges = map snd (drop 1 (ref_nodes 5))\<rparr>"

lemma ref_nodes_5: "ref_nodes 5 = map (\<lambda>b. (replicate 32 b, ref_node\<lparr>identity := replicate 32 b\<rparr>)) [0, 1, 2, 3, 4]"
  by (simp add: ref_nodes_def upt_rec)

text \<open>
  C33. Before the set of edges is full, a selection from a non-empty node list succeeds with a path
  of \<open>min 4 n\<close> hops in the iteration order of the list, all of them from the list and (when the list
  holds each identity once) no node twice, for the remote asked for, and its first hop is among the
  edges afterwards.
\<close>

theorem MaybeSelectHopsTo_path:
  assumes "draw_ok draw" and "place_ok place" and "snodelist s \<noteq> []" and "length (edges s) < 4"
  shows "\<exists>p s' g'. MaybeSelectHopsTo place draw rem s g = (Inr (Some p), s', g') \<and>
    remote p = rem \<and> length (hops p) = min 4 (length (snodelist s)) \<and>
    subseq (hops p) (map snd (snodelist s)) \<and>
    (distinct (map (identity \<circ> snd) (snodelist s)) \<longrightarrow> distinct (map identity (hops p))) \<and>
    (\<exists>e \<in> set (edges s'). snode_eq e (hd (hops p))) \<and> snodelist s' = snodelist s"
proof -
  obtain x xs g' where smp: "std_sample draw (snodelist s) DefaultHopLength g = (x # xs, g')"
      and sub: "subseq (x # xs) (snodelist s)" and len: "length (x # xs) = min 4 (length (snodelist s))"
    using sampled_nonempty [OF assms(1,3)] by metis
  have "subseq (map identity (map snd (x # xs))) (map identity (map snd (snodelist s)))"
    using sub by (intro subseq_map)
  then have dist: "distinct (map (identity \<circ> snd) (snodelist s)) \<Longrightarrow> distinct (map identity (map snd (x # xs)))"
    by (metis list.map_comp subseq_keeps_distinct)
  have "\<exists>e \<in> set (uset_insert place snode_eq (edges s) (snd x)). snode_eq e (snd x)"
    using assms(2) by (auto simp: uset_insert_set)
  then show ?thesis
    using MaybeSelect_few_edges [OF smp, of place rem] assms(4) subseq_map [OF sub, of snd] len dist
    by (simp add: MaxEdges_def)
qed

theorem MaybeSelectHopsTo_path_witness:
  "\<exists>p s' g'. MaybeSelectHopsTo place_front (prng_draw ref_sodium) (Remote_SNode ref_node)
      \<lparr>snodelist = ref_nodes 5, edges = []\<rparr> 0 = (Inr (Some p), s', g') \<and> length (hops p) = 4"
  using MaybeSelectHopsTo_path [OF prng_draw_ok [of ref_sodium] place_ok_examples(1),
      of "\<lparr>snodelist = ref_nodes 5, edges = []\<rparr>" "Remote_SNode ref_node" 0]
  by (fastforce simp: ref_nodes_5)

text \<open>
  C37. Which paths a selection can hand out, over all that can be drawn: the node list, which is not
  empty, in its iteration order, with any \<open>n - min 4 n\<close> of its n nodes left out. No such choice is
  missing and nothing else comes up; only, once four edges are stored, the first of them takes the
  place of the first hop of each.
\<close>

theorem MaybeSelectHopsTo_choices:
  assumes "snodelist s \<noteq> []"
  shows "{hops p | p. \<exists>ds s' g'. MaybeSelectHopsTo place list_draw rem s ds = (Inr (Some p), s', g')} =
    {(if 4 \<le> length (edges s) then hd (edges s) else snd (hd zs)) # map snd (tl zs) | zs.
      subseq zs (snodelist s) \<and> length zs = min 4 (length (snodelist s))}" (is "?paths = ?choices")
proof (intro equalityI subsetI)
  fix hs assume "hs \<in> ?paths"
  then obtain p ds s' g' where sel: "MaybeSelectHopsTo place list_draw rem s ds = (Inr (Some p), s', g')"
      and hs: "hs = hops p" by blast
  obtain x xs g1 where smp: "std_sample list_draw (snodelist s) DefaultHopLength ds = (x # xs, g1)"
      and sub: "subseq (x # xs) (snodelist s)" "length (x # xs) = min 4 (length (snodelist s))"
    using sampled_nonempty [OF list_draw_ok assms] by metis
  have "hs = (if 4 \<le> length (edges s) then hd (edges s) else snd x) # map snd xs"
    using selected_hops [OF smp list_draw_ok, of place rem] sel hs by auto
  with sub show "hs \<in> ?choices" by (intro CollectI exI [of _ "x # xs"]) simp
next
  fix hs assume "hs \<in> ?choices"
  then obtain zs where zs: "subseq zs (snodelist s)" "length zs = min 4 (length (snodelist s))"
      "hs = (if 4 \<le> length (edges s) then hd (edges s) else snd (hd zs)) # map snd (tl zs)" by blast
  then obtain x xs where cons: "zs = x # xs" using assms by (cases zs; cases "snodelist s") auto
  obtain ds where "std_sample list_draw (snodelist s) DefaultHopLength ds = (x # xs, [])"
    using std_sample_reaches [OF zs(1), of DefaultHopLength] zs(2) cons by (auto simp: DefaultHopLength_def)
  from selected_hops [OF this list_draw_ok, of place rem] obtain p s' g'' where
      "MaybeSelectHopsTo place list_draw rem s ds = (Inr (Some p), s', g'')" and "hops p = hs"
    using zs(3) cons by auto
  then show "hs \<in> ?paths" by blast
qed

text \<open>Of five nodes, some draws leave out the first.\<close>

theorem MaybeSelectHopsTo_choices_witness:
  "\<exists>p ds s' g'. MaybeSelectHopsTo place_front list_draw (Remote_SNode ref_node)
      \<lparr>snodelist = ref_nodes 5, edges = []\<rparr> ds = (Inr (Some p), s', g') \<and>
    hops p = map snd (drop 1 (ref_nodes 5))"
proof -
  let ?s = "\<lparr>snodelist = ref_nodes 5, edges = []\<rparr>" and ?zs = "drop 1 (ref_nodes 5)"
  have "subseq ?zs (ref_nodes 5)" by (simp add: ref_nodes_5)
  moreover have "length ?zs = min 4 (length (ref_nodes 5))" and cons: "?zs = hd ?zs # tl ?zs" and "ref_nodes 5 \<noteq> []"
    by (simp_all add: ref_nodes_5)
  ultimately have "snd (hd ?zs) # map snd (tl ?zs) \<in> {hops p | p. \<exists>ds s' g'.
      MaybeSelectHopsTo place_front list_draw (Remote_SNode ref_node) ?s ds = (Inr (Some p), s', g')}"
    by (subst MaybeSelectHopsTo_choices) (auto intro!: exI [of _ ?zs])
  then have "map snd (hd ?zs # tl ?zs) \<in> {hops p | p. \<exists>ds s' g'.
      MaybeSelectHopsTo place_front list_draw (Remote_SNode ref_node) ?s ds = (Inr (Some p), s', g')}" by simp
  then show ?thesis unfolding cons [symmetric] mem_Collect_eq by metis
qed

text \<open>
  Over every sequence of operations on a new selector, whatever is drawn and wherever the
  containers put their elements, there are at most four edges, and no two with one identity.
\<close>

theorem selector_edges_bounded:
  assumes "selector_run place draw (new_PathSelection, g) ps (s, g')" and "place_ok place" and "draw_ok draw"
  shows "length (edges s) \<le> 4 \<and> distinct (map identity (edges s))"
  using selector_run_edges_ok [OF assms] edges_ok_new by (simp add: edges_ok_def MaxEdges_def)

theorem selector_edges_bounded_witness:
  "\<exists>p s g'. selector_run place_front (prng_draw ref_sodium) (new_PathSelection, 0) [p] (s, g') \<and>
    length (edges s) \<le> 4 \<and> distinct (map identity (edges s)) \<and> edges s \<noteq> []"
proof -
  let ?s = "StoreNodeList (ref_nodes 5) new_PathSelection" and ?d = "prng_draw ref_sodium"
  have ne: "snodelist ?s \<noteq> []" by (simp add: StoreNodeList_def ref_nodes_5)
  obtain x xs g' where smp: "std_sample ?d (snodelist ?s) DefaultHopLength 0 = (x # xs, g')"
    using sampled_nonempty [OF prng_draw_ok ne] by metis
  obtain p s' where sel: "MaybeSelectHopsTo place_front ?d (Remote_SNode ref_node) ?s 0 = (Inr (Some p), s', g')"
      and "edges s' \<noteq> []"
    using MaybeSelect_few_edges [OF smp, of place_front "Remote_SNode ref_node"]
    by (simp add: StoreNodeList_def new_PathSelection_def MaxEdges_def uset_insert_def place_front_def)
  have "selector_run place_front ?d (new_PathSelection, 0) ([] @ []) (?s, 0)"
    by (rule selector_run.step [OF selector_run.stop selector_step.store])
  then have "selector_run place_front ?d (new_PathSelection, 0) (([] @ []) @ [p]) (s', g')"
    by (rule selector_run.step) (rule selector_step.select [OF sel])
  then have run: "selector_run place_front ?d (new_PathSelection, 0) [p] (s', g')" by simp
  from selector_edges_bounded [OF run place_ok_examples(1) prng_draw_ok] run \<open>edges s' \<noteq> []\<close>
  show ?thesis by blast
qed

text \<open>
  C29. The edges stop being random: once four are stored, no later operation, not even a new node
  list, changes them, and every later path goes through one and the same of them.
\<close>

theorem selector_edge_frozen:
  assumes "selector_run place draw (s, g) ps (s', g')" and "draw_ok draw" and "4 \<le> length (edges s)"
  shows "edges s' = edges s \<and> (\<forall>p \<in> set ps. Edge p = Inr (hd (edges s)))"
  using selector_run_frozen [OF assms(1,2)] assms(3) by (simp add: MaxEdges_def)

theorem selector_edge_frozen_witness:
  "\<exists>p s g. selector_run place_front (prng_draw ref_sodium) (ref_full_edges, 0) [p] (s, g) \<and>
    Edge p = Inr (hd (edges ref_full_edges))"
proof -
  let ?d = "prng_draw ref_sodium"
  have four: "4 \<le> length (edges ref_full_edges)" by (simp add: ref_full_edges_def ref_nodes_5)
  have ne: "snodelist ref_full_edges \<noteq> []" by (simp add: ref_full_edges_def ref_nodes_5)
  obtain x xs g' where "std_sample ?d (snodelist ref_full_edges) DefaultHopLength 0 = (x # xs, g')"
    using sampled_nonempty [OF prng_draw_ok ne] by metis
  then obtain p s' g where sel:
      "MaybeSelectHopsTo place_front ?d (Remote_SNode ref_node) ref_full_edges 0 = (Inr (Some p), s', g)"
    using MaybeSelect_full_edges [of ?d ref_full_edges 0 x xs g' place_front "Remote_SNode ref_node"]
      four prng_draw_ok by (auto simp: MaxEdges_def)
  have "selector_run place_front ?d (ref_full_edges, 0) ([] @ [p]) (s', g)"
    by (rule selector_run.step [OF selector_run.stop selector_step.select [OF sel]])
  then have run: "selector_run place_front ?d (ref_full_edges, 0) [p] (s', g)" by simp
  from selector_edge_frozen [OF run prng_draw_ok four] run show ?thesis by auto
qed

text \<open>
  Replacing the first hop by the stored edge can put one node into a path twice: whenever the
  edge is among the other sampled hops, and some draws sample it.
\<close>

theorem MaybeSelectHopsTo_duplicates:
  assumes "4 \<le> length (edges s)" and "subseq ys (snodelist s)" and "length ys = min 4 (length (snodelist s))"
    and "hd (edges s) \<in> snd ` set (tl ys)"
  shows "\<exists>ds p s' g'. MaybeSelectHopsTo place list_draw rem s ds = (Inr (Some p), s', g') \<and>
    \<not> distinct (map identity (hops p))"
proof -
  obtain ds where ds: "std_sample list_draw (snodelist s) DefaultHopLength ds = (ys, [])"
    using std_sample_reaches [OF assms(2), of DefaultHopLength] assms(3)
    by (auto simp: DefaultHopLength_def)
  obtain x xs where ys: "ys = x # xs" using assms(4) by (cases ys) auto
  have "identity (hd (edges s)) \<in> set (map identity (map snd xs))"
    using assms(4) ys by force
  then show ?thesis
    using MaybeSelect_full_edges [of list_draw s ds x xs "[]" place rem] ds ys assms(1) list_draw_ok
    by (fastforce simp: MaxEdges_def)
qed

theorem MaybeSelectHopsTo_duplicates_witness:
  "\<exists>ds p s' g'. MaybeSelectHopsTo place_front list_draw (Remote_SNode ref_node) ref_full_edges ds
      = (Inr (Some p), s', g') \<and> \<not> distinct (map identity (hops p))"
proof (rule MaybeSelectHopsTo_duplicates [where ys = "take 4 (ref_nodes 5)"])
  show "subseq (take 4 (ref_nodes 5)) (snodelist ref_full_edges)"
    unfolding ref_full_edges_def by (simp add: prefix_imp_subseq take_is_prefix)
qed (simp_all add: ref_full_edges_def ref_nodes_5)

text \<open>
  Before any node list arrived there is no \<open>nullopt\<close> to fall back on: a selection from an empty
  list dereferences the first hop of a path that has none.
\<close>

theorem MaybeSelectHopsTo_empty:
  assumes "snodelist s = []" and "draw_ok draw"
  shows "fst (MaybeSelectHopsTo place draw rem s g) = Inl (Undefined ''hops[0] of an empty path'')"
  using MaybeSelect_empty [OF assms, of place rem g] by auto

theorem MaybeSelectHopsTo_empty_witness:
  "fst (MaybeSelectHopsTo place_front (prng_draw ref_sodium) (Remote_SNode ref_node) new_PathSelection 0)
    = Inl (Undefined ''hops[0] of an empty path'')"
  by (rule MaybeSelectHopsTo_empty) (simp_all add: new_PathSelection_def prng_draw_ok)

end
