(* ===== verification/Locking.thy ===== *)
theory Locking
  imports Prelude
begin

text \<open>
  Objects whose operations run between \<open>std::unique_lock _lock{_access}\<close> and the end of its scope
  (\<open>PathSelection_Base::AccessList\<close> in onionreq/consensus.hpp, the two scopes of
  \<open>Transport_OMQ::ObtainConnectionTo\<close> in onionreq/transport.cpp), called by any number of threads.
  A section runs statement by statement and the threads interleave between the statements; that
  no operation sees another half done is proved, once, from what the lock does.
\<close>

subsection \<open>Threads\<close>

text \<open>
  Where a thread is with its call: not in one; called, before the lock; inside the section, with
  its local variables; past the unlock, with the value it will return.
\<close>

datatype ('op, 'l, 'r) activity =
    Idle
  | Waiting 'op
  | Inside 'op 'l
  | Leaving 'op 'r

record ('op, 'l, 'r, 's) machine =
  owner :: "nat option"
  shared :: 's
  acts :: "nat \<Rightarrow> ('op, 'l, 'r) activity"

definition new_machine :: "'s \<Rightarrow> ('op, 'l, 'r, 's) machine" where
  "new_machine s = \<lparr>owner = None, shared = s, acts = (\<lambda>i. Idle)\<rparr>"

text \<open>
  What can be observed of the threads. \<open>Commit\<close> is the moment the lock is released (for an operation
  that takes none, any moment of its call).
\<close>

datatype ('op, 'r) event =
    Invoke (thread_of: nat) 'op
  | Commit (thread_of: nat) 'op 'r
  | Return (thread_of: nat) 'op 'r

text \<open>
  An object: \<open>start\<close> is the state of the locals at the head of an operation's section (\<open>Inl r\<close> for
  an operation without one, which returns \<open>r\<close>), \<open>micro\<close> one statement of a section, \<open>finished\<close> the
  value with which a section ends. Only \<open>acquire\<close> waits for anything.
\<close>

inductive machine_step ::
    "('op \<Rightarrow> 'r + 'l) \<Rightarrow> ('l \<times> 's \<Rightarrow> 'l \<times> 's \<Rightarrow> bool) \<Rightarrow> ('l \<Rightarrow> 'r option) \<Rightarrow>
     ('op, 'l, 'r, 's) machine \<Rightarrow> ('op, 'r) event list \<Rightarrow> ('op, 'l, 'r, 's) machine \<Rightarrow> bool"
  for start :: "'op \<Rightarrow> 'r + 'l" and micro :: "'l \<times> 's \<Rightarrow> 'l \<times> 's \<Rightarrow> bool" and finished :: "'l \<Rightarrow> 'r option" where
  invoke: "acts m i = Idle \<Longrightarrow>
    machine_step start micro finished m [Invoke i opr] (m\<lparr>acts := (acts m)(i := Waiting opr)\<rparr>)"
| acquire: "acts m i = Waiting opr \<Longrightarrow> start opr = Inr l \<Longrightarrow> owner m = None \<Longrightarrow>
    machine_step start micro finished m []
      (m\<lparr>owner := Some i, acts := (acts m)(i := Inside opr l)\<rparr>)"
| statement: "acts m i = Inside opr l \<Longrightarrow> micro (l, shared m) (l', s') \<Longrightarrow>
    machine_step start micro finished m [] (m\<lparr>shared := s', acts := (acts m)(i := Inside opr l')\<rparr>)"
| release: "acts m i = Inside opr l \<Longrightarrow> finished l = Some r \<Longrightarrow>
    machine_step start micro finished m [Commit i opr r]
      (m\<lparr>owner := None, acts := (acts m)(i := Leaving opr r)\<rparr>)"
| lock_free: "acts m i = Waiting opr \<Longrightarrow> start opr = Inl r \<Longrightarrow>
    machine_step start micro finished m [Commit i opr r] (m\<lparr>acts := (acts m)(i := Leaving opr r)\<rparr>)"
| return: "acts m i = Leaving opr r \<Longrightarrow>
    machine_step start micro finished m [Return i opr r] (m\<lparr>acts := (acts m)(i := Idle)\<rparr>)"

inductive machine_run ::
    "('op \<Rightarrow> 'r + 'l) \<Rightarrow> ('l \<times> 's \<Rightarrow> 'l \<times> 's \<Rightarrow> bool) \<Rightarrow> ('l \<Rightarrow> 'r option) \<Rightarrow>
     ('op, 'l, 'r, 's) machine \<Rightarrow> ('op, 'r) event list \<Rightarrow> ('op, 'l, 'r, 's) machine \<Rightarrow> bool"
  for start :: "'op \<Rightarrow> 'r + 'l" and micro :: "'l \<times> 's \<Rightarrow> 'l \<times> 's \<Rightarrow> bool" and finished :: "'l \<Rightarrow> 'r option" where
  stop: "machine_run start micro finished m [] m"
| step: "machine_run start micro finished m tr m' \<Longrightarrow> machine_step start micro finished m' es m'' \<Longrightarrow>
    machine_run start micro finished m (tr @ es) m''"

lemma machine_run_append:
  assumes "machine_run start micro finished m' tr' m''" and "machine_run start micro finished m tr m'"
  shows "machine_run start micro finished m (tr @ tr') m''"
  using assms
proof (induction rule: machine_run.induct)
  case (step m' tr' m1 es m2)
  then show ?case using machine_run.step [of start micro finished m "tr @ tr'" m1 es m2] by simp
qed simp

lemma machine_run_one:
  "machine_step start micro finished m es m' \<Longrightarrow> machine_run start micro finished m es m'"
  using machine_run.step [OF machine_run.stop] by fastforce

lemma statements_run:
  assumes "micro\<^sup>*\<^sup>* c c'" and "acts m i = Inside opr (fst c)" and "shared m = snd c"
  shows "machine_run start micro finished m []
    (m\<lparr>shared := snd c', acts := (acts m)(i := Inside opr (fst c'))\<rparr>)"
  using assms(1)
proof (induction rule: rtranclp_induct)
  case base
  have "m\<lparr>shared := snd c, acts := (acts m)(i := Inside opr (fst c))\<rparr> = m"
    using assms(2,3) by (cases m) (simp add: fun_upd_idem)
  then show ?case by (simp only: machine_run.stop)
next
  case (step c1 c2)
  let ?m = "m\<lparr>shared := snd c1, acts := (acts m)(i := Inside opr (fst c1))\<rparr>"
  have "machine_step start micro finished ?m []
      (?m\<lparr>shared := snd c2, acts := (acts ?m)(i := Inside opr (fst c2))\<rparr>)"
    using machine_step.statement [of ?m i opr "fst c1" micro "fst c2" "snd c2" start finished] step.hyps(2)
    by simp
  from machine_run.step [OF step.IH this] show ?case by (simp del: fun_upd_apply)
qed

text \<open>The steps of a machine that is written out, and runs extended by them.\<close>

lemma written_step:
  "a i = Idle \<Longrightarrow> machine_step start micro finished \<lparr>owner = k, shared = s, acts = a\<rparr>
    [Invoke i p] \<lparr>owner = k, shared = s, acts = a(i := Waiting p)\<rparr>"
  "a i = Waiting p \<Longrightarrow> start p = Inr l \<Longrightarrow> machine_step start micro finished \<lparr>owner = None, shared = s, acts = a\<rparr>
    [] \<lparr>owner = Some i, shared = s, acts = a(i := Inside p l)\<rparr>"
  "a i = Inside p l \<Longrightarrow> micro (l, s) (l', s') \<Longrightarrow> machine_step start micro finished \<lparr>owner = k, shared = s, acts = a\<rparr>
    [] \<lparr>owner = k, shared = s', acts = a(i := Inside p l')\<rparr>"
  "a i = Inside p l \<Longrightarrow> finished l = Some r \<Longrightarrow> machine_step start micro finished \<lparr>owner = k, shared = s, acts = a\<rparr>
    [Commit i p r] \<lparr>owner = None, shared = s, acts = a(i := Leaving p r)\<rparr>"
  "a i = Leaving p r \<Longrightarrow> machine_step start micro finished \<lparr>owner = k, shared = s, acts = a\<rparr>
    [Return i p r] \<lparr>owner = k, shared = s, acts = a(i := Idle)\<rparr>"
  using machine_step.invoke [of "\<lparr>owner = k, shared = s, acts = a\<rparr>" i]
    machine_step.acquire [of "\<lparr>owner = None, shared = s, acts = a\<rparr>" i p start l]
    machine_step.statement [of "\<lparr>owner = k, shared = s, acts = a\<rparr>" i p l micro l' s']
    machine_step.release [of "\<lparr>owner = k, shared = s, acts = a\<rparr>" i p l finished r]
    machine_step.return [of "\<lparr>owner = k, shared = s, acts = a\<rparr>" i p r]
  by simp_all

lemmas extend_run = machine_run.step [OF _ written_step(1)] machine_run.step [OF _ written_step(2)]
  machine_run.step [OF _ written_step(3)] machine_run.step [OF _ written_step(4)]
  machine_run.step [OF _ written_step(5)]

subsection \<open>What a trace says\<close>

text \<open>The operations in the order in which they took effect, each with its result.\<close>

fun commits :: "('op, 'r) event list \<Rightarrow> ('op \<times> 'r) list" where
  "commits [] = []"
| "commits (Commit i opr r # es) = (opr, r) # commits es"
| "commits (e # es) = commits es"

text \<open>
  The life of one thread: it calls, its operation takes effect, the call returns with the result
  of that moment, and so on. So each operation takes effect between its call and its return, and
  one that returned before another was called took effect before it.
\<close>

datatype ('op, 'r) stage = Between | Called 'op | Committed 'op 'r

fun advance :: "('op, 'r) stage \<Rightarrow> ('op, 'r) event \<Rightarrow> ('op, 'r) stage option" where
  "advance Between (Invoke i p) = Some (Called p)"
| "advance (Called p) (Commit i q r) = (if q = p then Some (Committed p r) else None)"
| "advance (Committed p r) (Return i q r') = (if q = p \<and> r' = r then Some Between else None)"
| "advance st e = None"

fun follows :: "('op, 'r) stage \<Rightarrow> ('op, 'r) event list \<Rightarrow> ('op, 'r) stage option" where
  "follows st [] = Some st"
| "follows st (e # es) = (case advance st e of None \<Rightarrow> None | Some st \<Rightarrow> follows st es)"

definition calls_in_order :: "('op, 'r) event list \<Rightarrow> bool" where
  "calls_in_order tr \<longleftrightarrow> (\<forall>i. follows Between (filter (\<lambda>e. thread_of e = i) tr) \<noteq> None)"

text \<open>The object used by one thread: whole operations, one after the other.\<close>

inductive sequential ::
    "('op \<Rightarrow> 's \<Rightarrow> 'r \<Rightarrow> 's \<Rightarrow> bool) \<Rightarrow> 's \<Rightarrow> ('op \<times> 'r) list \<Rightarrow> 's \<Rightarrow> bool"
  for spec :: "'op \<Rightarrow> 's \<Rightarrow> 'r \<Rightarrow> 's \<Rightarrow> bool" where
  none: "sequential spec s [] s"
| more: "sequential spec s ops s' \<Longrightarrow> spec opr s' r s'' \<Longrightarrow> sequential spec s (ops @ [(opr, r)]) s''"

lemma sequential_append:
  assumes "sequential spec s' ys s''" and "sequential spec s xs s'"
  shows "sequential spec s (xs @ ys) s''"
  using assms
proof (induction rule: sequential.induct)
  case (more s' ops s1 opr r s2)
  then show ?case using sequential.more [of spec s "xs @ ops" s1 opr r s2] by simp
qed simp

lemma sequential_Nil [simp]: "sequential spec s [] s' \<longleftrightarrow> s' = s"
  by (auto elim: sequential.cases intro: sequential.none)

lemma sequential_one [simp]: "sequential spec s [(p, r)] s' \<longleftrightarrow> spec p s r s'"
proof
  assume "sequential spec s [(p, r)] s'"
  then show "spec p s r s'" by (cases rule: sequential.cases) simp_all
next
  assume "spec p s r s'"
  from sequential.more [OF sequential.none, of spec, OF this] show "sequential spec s [(p, r)] s'" by simp
qed

lemma commits_append [simp]: "commits (xs @ ys) = commits xs @ commits ys"
  by (induction xs rule: commits.induct) simp_all

lemma follows_append [simp]:
  "follows st (xs @ ys) = (case follows st xs of None \<Rightarrow> None | Some st \<Rightarrow> follows st ys)"
  by (induction st xs rule: follows.induct) (simp_all split: option.split)

fun stage_of :: "('op, 'l, 'r) activity \<Rightarrow> ('op, 'r) stage" where
  "stage_of Idle = Between"
| "stage_of (Waiting p) = Called p"
| "stage_of (Inside p l) = Called p"
| "stage_of (Leaving p r) = Committed p r"

lemma stage_step:
  assumes "machine_step start micro finished m es m'"
  shows "follows (stage_of (acts m i)) (filter (\<lambda>e. thread_of e = i) es) = Some (stage_of (acts m' i))"
  using assms by (cases rule: machine_step.cases) auto

lemma stage_run:
  assumes "machine_run start micro finished m tr m'" and "acts m i = Idle"
  shows "follows Between (filter (\<lambda>e. thread_of e = i) tr) = Some (stage_of (acts m' i))"
  using assms
proof (induction rule: machine_run.induct)
  case (step m tr m' es m'')
  then show ?case using stage_step [OF step.hyps(2), of i] by simp
qed simp

text \<open>Only what was called takes effect, and only what took effect returns.\<close>

lemma follows_last:
  "follows Between es = Some st \<Longrightarrow> \<forall>e \<in> set es. thread_of e = i \<Longrightarrow>
    (st = Called p \<longrightarrow> Invoke i p \<in> set es) \<and> (st = Committed p r \<longrightarrow> Commit i p r \<in> set es)"
proof (induction es arbitrary: st rule: rev_induct)
  case (snoc e es)
  then obtain st1 where st1: "follows Between es = Some st1" "advance st1 e = Some st"
    by (auto split: option.splits)
  then show ?case
    using snoc.prems(2) by (cases "(st1, e)" rule: advance.cases) (auto split: if_splits)
qed simp

lemma calls_in_order_before:
  assumes "calls_in_order (xs @ e # ys)"
  obtains st where "follows Between (filter (\<lambda>d. thread_of d = thread_of e) xs) = Some st"
    and "advance st e \<noteq> None"
  using assms by (fastforce simp: calls_in_order_def dest: spec [of _ "thread_of e"] split: option.splits)

lemma commit_invoked:
  assumes "calls_in_order tr" and "Commit i p r \<in> set tr"
  shows "Invoke i p \<in> set tr"
proof -
  obtain xs ys where tr: "tr = xs @ Commit i p r # ys" using assms(2) by (meson split_list)
  obtain st where st: "follows Between (filter (\<lambda>d. thread_of d = i) xs) = Some st"
      "advance st (Commit i p r) \<noteq> None"
    using calls_in_order_before [OF assms(1) [unfolded tr]] by auto
  then have "st = Called p" by (cases st) (auto split: if_splits)
  with follows_last [OF st(1), of i p] show ?thesis by (auto simp: tr)
qed

lemma return_committed:
  assumes "calls_in_order tr" and "Return i p r \<in> set tr"
  shows "Commit i p r \<in> set tr"
proof -
  obtain xs ys where tr: "tr = xs @ Return i p r # ys" using assms(2) by (meson split_list)
  obtain st where st: "follows Between (filter (\<lambda>d. thread_of d = i) xs) = Some st"
      "advance st (Return i p r) \<noteq> None"
    using calls_in_order_before [OF assms(1) [unfolded tr]] by auto
  then have "st = Committed p r" by (cases st) (auto split: if_splits)
  with follows_last [OF st(1), of i p r] show ?thesis by (auto simp: tr)
qed

lemma commits_iff: "(p, r) \<in> set (commits tr) \<longleftrightarrow> (\<exists>i. Commit i p r \<in> set tr)"
  by (induction tr rule: commits.induct) auto

subsection \<open>The lock\<close>

text \<open>
  What an object has to prove: a section run without interruption from its head to its end does
  what the operation is specified to do, and an operation without a section changes nothing.
\<close>

locale locked_object =
  fixes start :: "'op \<Rightarrow> 'r + 'l"
    and micro :: "'l \<times> 's \<Rightarrow> 'l \<times> 's \<Rightarrow> bool"
    and finished :: "'l \<Rightarrow> 'r option"
    and spec :: "'op \<Rightarrow> 's \<Rightarrow> 'r \<Rightarrow> 's \<Rightarrow> bool"
  assumes section_spec:
      "start opr = Inr l0 \<Longrightarrow> micro\<^sup>*\<^sup>* (l0, s) (l, s') \<Longrightarrow> finished l = Some r \<Longrightarrow> spec opr s r s'"
    and lock_free_spec: "start opr = Inl r \<Longrightarrow> spec opr s r s"
begin

abbreviation run where "run \<equiv> machine_run start micro finished"

text \<open>The owner is the one thread inside, and has run part of its section on the last full state.\<close>

definition mid_section :: "('op, 'l, 'r, 's) machine \<Rightarrow> 's \<Rightarrow> bool" where
  "mid_section m s \<longleftrightarrow> (case owner m of
      None \<Rightarrow> shared m = s \<and> (\<forall>i opr l. acts m i \<noteq> Inside opr l)
    | Some k \<Rightarrow> (\<exists>opr l0 l. acts m k = Inside opr l \<and> start opr = Inr l0 \<and>
          micro\<^sup>*\<^sup>* (l0, s) (l, shared m)) \<and>
        (\<forall>i opr l. acts m i = Inside opr l \<longrightarrow> i = k))"

lemma mid_section_inside:
  assumes "mid_section m s" and "acts m i = Inside opr l"
  shows "owner m = Some i" and "\<exists>l0. start opr = Inr l0 \<and> micro\<^sup>*\<^sup>* (l0, s) (l, shared m)"
proof -
  obtain k where k: "owner m = Some k"
    using assms by (auto simp: mid_section_def split: option.splits)
  then have "k = i" using assms by (auto simp: mid_section_def)
  with k show "owner m = Some i" by simp
  with assms show "\<exists>l0. start opr = Inr l0 \<and> micro\<^sup>*\<^sup>* (l0, s) (l, shared m)"
    by (auto simp: mid_section_def)
qed

lemma mid_section_step:
  assumes "machine_step start micro finished m es m'" and "mid_section m s"
  shows "\<exists>s'. sequential spec s (commits es) s' \<and> mid_section m' s'"
  using assms(1)
proof (cases rule: machine_step.cases)
  case (statement i opr l l' s')
  note inside = mid_section_inside [OF assms(2) statement(3)]
  then have "\<exists>l0. start opr = Inr l0 \<and> micro\<^sup>*\<^sup>* (l0, s) (l', s')"
    using statement(4) by (auto intro: rtranclp.rtrancl_into_rtrancl)
  then show ?thesis
    using inside(1) assms(2) statement(1,2)
    by (intro exI [of _ s]) (auto simp: mid_section_def sequential.none)
next
  case (release i opr l r)
  note inside = mid_section_inside [OF assms(2) release(3)]
  then have "spec opr s r (shared m)"
    using section_spec release(4) by blast
  then have "sequential spec s ([] @ [(opr, r)]) (shared m)"
    by (rule sequential.more [OF sequential.none])
  then show ?thesis
    using inside(1) assms(2) release(1,2)
    by (intro exI [of _ "shared m"]) (auto simp: mid_section_def)
next
  case (lock_free i opr r)
  then have "sequential spec s ([] @ [(opr, r)]) s"
    using lock_free_spec by (intro sequential.more [OF sequential.none]) 
  then show ?thesis
    using assms(2) lock_free(1-3)
    by (intro exI [of _ s]) (auto simp: mid_section_def split: option.splits)
qed (use assms(2) in \<open>auto simp: mid_section_def split: option.splits intro: exI [of _ s] sequential.none\<close>)

lemma mid_section_run:
  assumes "run m tr m'" and "mid_section m s"
  shows "\<exists>s'. sequential spec s (commits tr) s' \<and> mid_section m' s'"
  using assms
proof (induction rule: machine_run.induct)
  case (step m tr m' es m'')
  then obtain s1 where s1: "sequential spec s (commits tr) s1" "mid_section m' s1" by blast
  from mid_section_step [OF step.hyps(2) s1(2)] obtain s2 where
      "sequential spec s1 (commits es) s2" "mid_section m'' s2"
    by blast
  with s1(1) show ?case by (auto intro: sequential_append)
qed (auto intro: sequential.none)

lemma mid_section_new: "mid_section (new_machine s) s"
  by (simp add: mid_section_def new_machine_def)

lemma one_inside:
  assumes "mid_section m s" and "acts m i = Inside opr l" and "acts m j = Inside opr' l'"
  shows "i = j"
  using mid_section_inside(1) [OF assms(1,2)] mid_section_inside(1) [OF assms(1,3)] by simp

text \<open>
  Whatever the schedule: at most one thread is inside; the operations, in the order of their
  commits, are a run of the object by one thread, with the same results; that order respects the
  order of calls and returns; and while the lock is free the object is in the state of that run.
\<close>

lemma linearizable:
  assumes "run (new_machine s0) tr m"
  shows "\<exists>s. sequential spec s0 (commits tr) s \<and> (owner m = None \<longrightarrow> shared m = s)"
    and "calls_in_order tr"
    and "acts m i = Inside opr l \<Longrightarrow> acts m j = Inside opr' l' \<Longrightarrow> i = j"
proof -
  obtain s where s: "sequential spec s0 (commits tr) s" "mid_section m s"
    using mid_section_run [OF assms mid_section_new] by blast
  then show "\<exists>s. sequential spec s0 (commits tr) s \<and> (owner m = None \<longrightarrow> shared m = s)"
    by (auto simp: mid_section_def)
  show "acts m i = Inside opr l \<Longrightarrow> acts m j = Inside opr' l' \<Longrightarrow> i = j"
    by (rule one_inside [OF s(2)])
  show "calls_in_order tr"
    using stage_run [OF assms] by (simp add: calls_in_order_def new_machine_def)
qed

end

subsection \<open>No call stays behind the lock\<close>

text \<open>A step other than a new call.\<close>

definition quiet_step ::
    "('op \<Rightarrow> 'r + 'l) \<Rightarrow> ('l \<times> 's \<Rightarrow> 'l \<times> 's \<Rightarrow> bool) \<Rightarrow> ('l \<Rightarrow> 'r option) \<Rightarrow>
     ('op, 'l, 'r, 's) machine \<Rightarrow> ('op, 'l, 'r, 's) machine \<Rightarrow> bool" where
  "quiet_step start micro finished m m' \<longleftrightarrow>
     (\<exists>es. machine_step start micro finished m es m' \<and> (\<forall>i p. Invoke i p \<notin> set es))"

text \<open>
  Each statement brings a section nearer to its end, and in a good state no statement is without a
  defined effect: then the lock is always given back. \<open>env\<close> is what is assumed of the libraries.
\<close>

locale ending_object = locked_object start micro finished spec
  for start :: "'op \<Rightarrow> 'r + 'l" and micro :: "'l \<times> 's \<Rightarrow> 'l \<times> 's \<Rightarrow> bool"
    and finished :: "'l \<Rightarrow> 'r option" and spec :: "'op \<Rightarrow> 's \<Rightarrow> 'r \<Rightarrow> 's \<Rightarrow> bool" +
  fixes env :: bool
    and left :: "'l \<Rightarrow> nat"
    and allowed :: "'op \<Rightarrow> bool"
    and good :: "'s \<Rightarrow> bool"
  assumes left_decreases: "env \<Longrightarrow> micro (l, s) (l', s') \<Longrightarrow> left l' < left l"
    and good_kept: "env \<Longrightarrow> spec opr s r s' \<Longrightarrow> allowed opr \<Longrightarrow> good s \<Longrightarrow> good s'"
    and section_goes_on: "env \<Longrightarrow> start opr = Inr l0 \<Longrightarrow> allowed opr \<Longrightarrow> good s \<Longrightarrow>
      micro\<^sup>*\<^sup>* (l0, s) (l, s') \<Longrightarrow> finished l = None \<Longrightarrow> \<exists>c. micro (l, s') c"
begin

abbreviation quiet where "quiet \<equiv> quiet_step start micro finished"

text \<open>The steps a thread has before it at most.\<close>

fun ahead :: "('op, 'l, 'r) activity \<Rightarrow> nat" where
  "ahead Idle = 0"
| "ahead (Waiting p) = (case start p of Inl r \<Rightarrow> 2 | Inr l \<Rightarrow> left l + 3)"
| "ahead (Inside p l) = left l + 2"
| "ahead (Leaving p r) = 1"

fun pending_ok :: "('op, 'l, 'r) activity \<Rightarrow> bool" where
  "pending_ok (Waiting p) = allowed p"
| "pending_ok (Inside p l) = allowed p"
| "pending_ok a = True"

definition sound :: "('op, 'l, 'r, 's) machine \<Rightarrow> bool" where
  "sound m \<longleftrightarrow> (\<exists>s. good s \<and> mid_section m s) \<and> (\<forall>i. pending_ok (acts m i))"

lemma quiet_ahead:
  assumes "quiet m m'" and env
  obtains i where "ahead (acts m' i) < ahead (acts m i)" and "\<And>j. j \<noteq> i \<Longrightarrow> acts m' j = acts m j"
proof -
  obtain es where "machine_step start micro finished m es m'" "\<forall>i p. Invoke i p \<notin> set es"
    using assms(1) by (auto simp: quiet_step_def)
  then have "\<exists>i a. acts m' = (acts m)(i := a) \<and> ahead a < ahead (acts m i)"
    by (cases rule: machine_step.cases) (auto simp: left_decreases [OF assms(2)] intro!: exI)
  with that show thesis by (metis fun_upd_other fun_upd_same)
qed

lemma good_sequential:
  "sequential spec s ops s' \<Longrightarrow> env \<Longrightarrow> \<forall>(p, r) \<in> set ops. allowed p \<Longrightarrow> good s \<Longrightarrow> good s'"
  by (induction rule: sequential.induct) (auto intro: good_kept)

lemma sound_step:
  assumes "machine_step start micro finished m es m'" and env and "sound m"
    and "\<forall>i p. Invoke i p \<in> set es \<longrightarrow> allowed p"
  shows "sound m'"
proof -
  obtain s where s: "good s" "mid_section m s" using assms(3) by (auto simp: sound_def)
  obtain s' where s': "sequential spec s (commits es) s'" "mid_section m' s'"
    using mid_section_step [OF assms(1) s(2)] by blast
  have pend: "pending_ok (acts m i)" for i using assms(3) by (simp add: sound_def)
  have "\<forall>(p, r) \<in> set (commits es). allowed p"
    using assms(1) pend by (cases rule: machine_step.cases) (auto, (metis pending_ok.simps)+)
  then have "good s'" using good_sequential [OF s'(1) assms(2) _ s(1)] by blast
  moreover have "pending_ok (acts m' i)" for i
    using assms(1,4) pend by (cases rule: machine_step.cases) (auto, (metis pending_ok.simps)+)
  ultimately show ?thesis using s'(2) by (auto simp: sound_def)
qed

lemma sound_run:
  assumes "run m tr m'" and env and "sound m" and "\<forall>i p. Invoke i p \<in> set tr \<longrightarrow> allowed p"
  shows "sound m'"
  using assms(1,3,4) by (induction rule: machine_run.induct) (auto intro: sound_step [OF _ assms(2)])

lemma sound_quiet: "quiet\<^sup>*\<^sup>* m m' \<Longrightarrow> env \<Longrightarrow> sound m \<Longrightarrow> sound m'"
  by (induction rule: rtranclp_induct) (auto simp: quiet_step_def intro: sound_step)

lemma sound_new: "good s \<Longrightarrow> sound (new_machine s)"
  using mid_section_new by (auto simp: sound_def new_machine_def)

lemma owner_inside: "sound m \<Longrightarrow> owner m \<noteq> None \<Longrightarrow> \<exists>i p l. acts m i = Inside p l"
  by (auto simp: sound_def mid_section_def split: option.splits)

text \<open>The owner can go on; when there is none, so can every thread with a call.\<close>

lemma quiet_progress:
  assumes env and "sound m" and "acts m i \<noteq> Idle"
  shows "\<exists>m'. quiet m m'"
proof -
  have quiet: "\<exists>m'. quiet m m'" if "machine_step start micro finished m es m'" "\<forall>i p. Invoke i p \<notin> set es"
    for es m' using that by (auto simp: quiet_step_def)
  obtain s where s: "good s" "mid_section m s" using assms(2) by (auto simp: sound_def)
  show ?thesis
  proof (cases "\<exists>k opr l. acts m k = Inside opr l")
    case True
    then obtain k opr l where k: "acts m k = Inside opr l" by blast
    then have "allowed opr" using assms(2) by (metis sound_def pending_ok.simps(2))
    obtain l0 where l0: "start opr = Inr l0" "micro\<^sup>*\<^sup>* (l0, s) (l, shared m)"
      using mid_section_inside(2) [OF s(2) k] by blast
    show ?thesis
    proof (cases "finished l")
      case None
      then obtain l' s' where "micro (l, shared m) (l', s')"
        using section_goes_on [OF assms(1) l0(1) \<open>allowed opr\<close> s(1) l0(2)] by auto
      from quiet [OF machine_step.statement [OF k, of micro, OF this]] show ?thesis by simp
    next
      case (Some r)
      from quiet [OF machine_step.release [OF k, of finished r]] Some show ?thesis by simp
    qed
  next
    case False
    then have free: "owner m = None" using s(2) by (auto simp: mid_section_def split: option.splits)
    show ?thesis
    proof (cases "acts m i")
      case (Waiting p)
      show ?thesis
      proof (cases "start p")
        case (Inl r)
        from quiet [OF machine_step.lock_free [OF Waiting, of start, OF Inl]] show ?thesis by simp
      next
        case (Inr l)
        from quiet [OF machine_step.acquire [OF Waiting, of start, OF Inr free]] show ?thesis by simp
      qed
    next
      case (Leaving p r)
      from quiet [OF machine_step.return [OF Leaving]] show ?thesis by simp
    qed (use assms(3) False in auto)
  qed
qed

text \<open>
  So the calls under way all return: however they are scheduled, within the sum of the steps
  they have before them.
\<close>

lemma quiet_bounded:
  assumes "(quiet ^^ k) m m'" and env and "finite I" and "\<And>j. j \<notin> I \<Longrightarrow> acts m j = Idle"
  shows "k + (\<Sum>j \<in> I. ahead (acts m' j)) \<le> (\<Sum>j \<in> I. ahead (acts m j))"
proof -
  have "\<exists>i. ahead (acts y i) < ahead (acts x i) \<and> (\<forall>j. j \<noteq> i \<longrightarrow> ahead (acts y j) = ahead (acts x j))"
    if "quiet x y" for x y
    using quiet_ahead [OF that assms(2)] by metis
  then show ?thesis
    using bounded_steps [where P = "\<lambda>m. True" and f = "\<lambda>m j. ahead (acts m j)", OF _ assms(1) _ assms(3)] assms(4)
    by auto
qed

lemma left_reach: "micro\<^sup>*\<^sup>* c c' \<Longrightarrow> env \<Longrightarrow> left (fst c') \<le> left (fst c)"
proof (induction rule: rtranclp_induct)
  case (step b d)
  then have "left (fst d) < left (fst b)" by (intro left_decreases [of "fst b" "snd b" _ "snd d"]) simp_all
  with step show ?case by simp
qed simp

lemma ahead_bound:
  assumes "mid_section m s" and env and "\<And>p l. start p = Inr l \<Longrightarrow> left l \<le> b"
  shows "ahead (acts m i) \<le> b + 3"
proof (cases "acts m i")
  case (Inside p l)
  then obtain l0 where "start p = Inr l0" "micro\<^sup>*\<^sup>* (l0, s) (l, shared m)"
    using mid_section_inside(2) [OF assms(1)] by blast
  then have "left l \<le> b" using left_reach [OF _ assms(2)] assms(3) by fastforce
  with Inside show ?thesis by simp
qed (use assms(3) in \<open>auto split: sum.splits\<close>)

lemma calls_end:
  assumes "run (new_machine s0) tr m" and env and "good s0" and "\<forall>i p. Invoke i p \<in> set tr \<longrightarrow> allowed p"
    and "(quiet ^^ k) m m'" and "\<And>i. n \<le> i \<Longrightarrow> acts m i = Idle"
    and "\<And>p l. start p = Inr l \<Longrightarrow> left l \<le> b"
  shows "k \<le> (b + 3) * n"
    and "(\<nexists>m''. quiet m' m'') \<longleftrightarrow> (\<forall>i. acts m' i = Idle)"
proof -
  obtain s where "mid_section m s" using mid_section_run [OF assms(1) mid_section_new] by blast
  then have "(\<Sum>j < n. ahead (acts m j)) \<le> (\<Sum>j < n. b + 3)"
    by (intro sum_mono ahead_bound [OF _ assms(2,7)])
  then show "k \<le> (b + 3) * n"
    using quiet_bounded [OF assms(5,2), of "{..<n}"] assms(6) by (simp add: mult.commute)
  have "sound m'"
    using sound_quiet [OF relpowp_imp_rtranclp [OF assms(5)] assms(2)]
      sound_run [OF assms(1,2) sound_new [OF assms(3)] assms(4)] .
  then have "\<exists>m''. quiet m' m''" if "acts m' i \<noteq> Idle" for i
    using quiet_progress [OF assms(2)] that by blast
  moreover have "\<nexists>m''. quiet m' m''" if "\<forall>i. acts m' i = Idle"
    using that by (metis ahead.simps(1) assms(2) less_nat_zero_code quiet_ahead)
  ultimately show "(\<nexists>m''. quiet m' m'') \<longleftrightarrow> (\<forall>i. acts m' i = Idle)" by blast
qed

text \<open>One call by itself, the lock being free.\<close>

lemma section_ends:
  assumes env and "start opr = Inr l0" and "allowed opr" and "good s" and "micro\<^sup>*\<^sup>* (l0, s) (l, s1)"
  shows "\<exists>l' s' r. micro\<^sup>*\<^sup>* (l, s1) (l', s') \<and> finished l' = Some r \<and> spec opr s r s'"
  using assms(5)
proof (induction "left l" arbitrary: l s1 rule: less_induct)
  case less
  show ?case
  proof (cases "finished l")
    case None
    then obtain l2 s2 where step: "micro (l, s1) (l2, s2)"
      using section_goes_on [OF assms(1-4) less.prems] by auto
    with less.hyps [OF left_decreases [OF assms(1) step]] less.prems
    obtain l' s' r where "micro\<^sup>*\<^sup>* (l2, s2) (l', s')" "finished l' = Some r" "spec opr s r s'"
      by (meson rtranclp.rtrancl_into_rtrancl)
    with step show ?thesis by (meson converse_rtranclp_into_rtranclp)
  next
    case (Some r)
    then show ?thesis using section_spec [OF assms(2) less.prems Some] by blast
  qed
qed

lemma solo_call:
  assumes env and "start opr = Inr l0" and "allowed opr" and "good (shared m)"
    and "acts m i = Idle" and "owner m = None"
  shows "\<exists>r s'. spec opr (shared m) r s' \<and> run m [Invoke i opr, Commit i opr r, Return i opr r] (m\<lparr>shared := s'\<rparr>)"
proof -
  obtain l s' r where end_of: "micro\<^sup>*\<^sup>* (l0, shared m) (l, s')" "finished l = Some r" "spec opr (shared m) r s'"
    using section_ends [OF assms(1-4)] by blast
  let ?m1 = "m\<lparr>acts := (acts m)(i := Waiting opr)\<rparr>"
  let ?m2 = "m\<lparr>owner := Some i, acts := (acts m)(i := Inside opr l0)\<rparr>"
  let ?m3 = "m\<lparr>owner := Some i, shared := s', acts := (acts m)(i := Inside opr l)\<rparr>"
  let ?m4 = "m\<lparr>shared := s', owner := None, acts := (acts m)(i := Leaving opr r)\<rparr>"
  have 1: "run m [Invoke i opr] ?m1"
    by (rule machine_run_one) (rule machine_step.invoke [OF assms(5)])
  have 2: "run ?m1 [] ?m2"
    using machine_step.acquire [of ?m1 i opr start l0 micro finished] assms(2,6)
    by (intro machine_run_one) simp
  have 3: "run ?m2 [] ?m3"
    using statements_run [OF end_of(1), of ?m2 i opr start finished] by simp
  have 4: "run ?m3 [Commit i opr r] ?m4"
    using machine_step.release [of ?m3 i opr l finished r start micro] end_of(2)
    by (intro machine_run_one) simp
  have 5: "run ?m4 [Return i opr r] (m\<lparr>shared := s'\<rparr>)"
    using machine_step.return [of ?m4 i opr r start micro finished] assms(5,6)
    by (intro machine_run_one) (cases m, simp add: fun_upd_idem)
  have "run m ([Invoke i opr] @ [] @ [] @ [Commit i opr r] @ [Return i opr r]) (m\<lparr>shared := s'\<rparr>)"
    by (intro machine_run_append [OF _ 1] machine_run_append [OF _ 2] machine_run_append [OF _ 3]
        machine_run_append [OF 5 4])
  with end_of(3) show ?thesis by auto
qed

end

end
