(* ===== verification/Selector_Threads.thy ===== *)
theory Selector_Threads
  imports Path_Selection Locking
begin

text \<open>
  The path selector used by several threads at once (onionreq/consensus.hpp, consensus.cpp): the
  operations of \<open>PathSelection_Base\<close>, of which two run inside \<open>AccessList\<close>, in the statements of the
  functions passed to it. The random generator's state counts as protected by the lock, that is,
  nothing else draws while a section runs.
\<close>

subsection \<open>The sections\<close>

datatype selector_op =
    Op_StoreNodeList "(ed25519_pubkey \<times> snode_info) list"
  | Op_MaybeSelectHopsTo remote_resource
  | Op_DefaultHopLength
  | Op_OnionPathFailed onion_path
  | Op_OnionPathSuccess onion_path

datatype selector_result =
    No_Result
  | Some_Path "onion_path option"
  | Hop_Length nat

text \<open>
  Where a section is, with its locals: the captured \<open>snodelist\<close>, the captured \<open>path\<close> (whose remote,
  set after the unlock from the argument, is there from the start) and the vector \<open>hops\<close>.
\<close>

datatype selector_local =
    Assigning "(ed25519_pubkey \<times> snode_info) list"
  | Half_Assigned "(ed25519_pubkey \<times> snode_info) list"
  | Stored
  | Sampling_Hops remote_resource
  | Pushing "(ed25519_pubkey \<times> snode_info) list" onion_path
  | Choosing_Edge onion_path
  | Inserting_Edge onion_path
  | Selected onion_path

fun selector_start :: "selector_op \<Rightarrow> selector_result + selector_local" where
  "selector_start (Op_StoreNodeList nodes) = Inr (Assigning nodes)"
| "selector_start (Op_MaybeSelectHopsTo rem) = Inr (Sampling_Hops rem)"
| "selector_start Op_DefaultHopLength = Inl (Hop_Length DefaultHopLength)"
| "selector_start (Op_OnionPathFailed p) = Inl No_Result"
| "selector_start (Op_OnionPathSuccess p) = Inl No_Result"

text \<open>
  One statement. The assignment of the map is two: what a reader would see in between is any
  content whatever. A statement without a defined effect is not a step.
\<close>

inductive selector_micro ::
    "snode_info placement \<Rightarrow> 'g draw \<Rightarrow> selector_local \<times> path_selection \<times> 'g \<Rightarrow>
     selector_local \<times> path_selection \<times> 'g \<Rightarrow> bool"
  for place :: "snode_info placement" and draw :: "'g draw" where
  torn: "selector_micro place draw (Assigning nodes, s, g) (Half_Assigned nodes, s\<lparr>snodelist := any\<rparr>, g)"
| assigned: "selector_micro place draw (Half_Assigned nodes, s, g) (Stored, s\<lparr>snodelist := nodes\<rparr>, g)"
| sample: "std_sample draw (snodelist s) DefaultHopLength g = (sampled, g') \<Longrightarrow>
    selector_micro place draw (Sampling_Hops rem, s, g) (Pushing sampled \<lparr>hops = [], remote = rem\<rparr>, s, g')"
| push: "selector_micro place draw (Pushing (hop # rest) p, s, g)
    (Pushing rest (p\<lparr>hops := hops p @ [snd hop]\<rparr>), s, g)"
| pushed: "selector_micro place draw (Pushing [] p, s, g) (Choosing_Edge p, s, g)"
| few: "length (edges s) < MaxEdges \<Longrightarrow>
    selector_micro place draw (Choosing_Edge p, s, g) (Inserting_Edge p, s, g)"
| full: "MaxEdges \<le> length (edges s) \<Longrightarrow> pick_random_from draw Inr (edges s) g = (Inr e, g') \<Longrightarrow>
    set_Edge e p = Inr p' \<Longrightarrow> selector_micro place draw (Choosing_Edge p, s, g) (Inserting_Edge p', s, g')"
| insert: "Edge p = Inr e \<Longrightarrow> selector_micro place draw (Inserting_Edge p, s, g)
    (Selected p, s\<lparr>edges := uset_insert place snode_eq (edges s) e\<rparr>, g)"

fun selector_finished :: "selector_local \<Rightarrow> selector_result option" where
  "selector_finished Stored = Some No_Result"
| "selector_finished (Selected p) = Some (Some_Path (Some p))"
| "selector_finished l = None"

inductive_cases selector_microE: "selector_micro place draw (l, c) (l', c')"

text \<open>What the operations promise: those of \<open>Path_Selection\<close>.\<close>

fun selector_spec ::
    "snode_info placement \<Rightarrow> 'g draw \<Rightarrow> selector_op \<Rightarrow> path_selection \<times> 'g \<Rightarrow> selector_result \<Rightarrow>
     path_selection \<times> 'g \<Rightarrow> bool" where
  "selector_spec place draw (Op_StoreNodeList nodes) c r c' \<longleftrightarrow>
     r = No_Result \<and> c' = (StoreNodeList nodes (fst c), snd c)"
| "selector_spec place draw (Op_MaybeSelectHopsTo rem) c r c' \<longleftrightarrow>
     (\<exists>p. r = Some_Path p \<and> MaybeSelectHopsTo place draw rem (fst c) (snd c) = (Inr p, c'))"
| "selector_spec place draw Op_DefaultHopLength c r c' \<longleftrightarrow> r = Hop_Length DefaultHopLength \<and> c' = c"
| "selector_spec place draw (Op_OnionPathFailed p) c r c' \<longleftrightarrow>
     r = No_Result \<and> c' = (OnionPathFailed p (fst c), snd c)"
| "selector_spec place draw (Op_OnionPathSuccess p) c r c' \<longleftrightarrow>
     r = No_Result \<and> c' = (OnionPathSuccess p (fst c), snd c)"

subsection \<open>Lemmas\<close>

text \<open>How far a section that began in \<open>(s, g)\<close> has come.\<close>

fun in_section ::
    "snode_info placement \<Rightarrow> 'g draw \<Rightarrow> selector_op \<Rightarrow> path_selection \<Rightarrow> 'g \<Rightarrow> selector_local \<Rightarrow>
     path_selection \<times> 'g \<Rightarrow> bool" where
  "in_section place draw (Op_StoreNodeList nodes) s g l c \<longleftrightarrow>
     (case l of
        Assigning n \<Rightarrow> n = nodes \<and> c = (s, g)
      | Half_Assigned n \<Rightarrow> n = nodes \<and> (\<exists>any. c = (s\<lparr>snodelist := any\<rparr>, g))
      | Stored \<Rightarrow> c = (StoreNodeList nodes s, g)
      | _ \<Rightarrow> False)"
| "in_section place draw (Op_MaybeSelectHopsTo rem) s g l c \<longleftrightarrow>
     (case std_sample draw (snodelist s) DefaultHopLength g of (ys, g1) \<Rightarrow>
        (case l of
           Sampling_Hops r \<Rightarrow> r = rem \<and> c = (s, g)
         | Pushing xs q \<Rightarrow> c = (s, g1) \<and> remote q = rem \<and> hops q @ map snd xs = map snd ys
         | Choosing_Edge q \<Rightarrow> c = (s, g1) \<and> q = \<lparr>hops = map snd ys, remote = rem\<rparr>
         | Inserting_Edge q \<Rightarrow> fst c = s \<and>
             (if MaxEdges \<le> length (edges s)
              then (\<exists>e. pick_random_from draw Inr (edges s) g1 = (Inr e, snd c) \<and>
                set_Edge e \<lparr>hops = map snd ys, remote = rem\<rparr> = Inr q)
              else q = \<lparr>hops = map snd ys, remote = rem\<rparr> \<and> snd c = g1)
         | Selected q \<Rightarrow> MaybeSelectHopsTo place draw rem s g = (Inr (Some q), c)
         | _ \<Rightarrow> False))"
| "in_section place draw _ s g l c \<longleftrightarrow> False"

lemma in_section_start:
  "selector_start opr = Inr l \<Longrightarrow> in_section place draw opr s g l (s, g)"
  by (cases opr) (auto split: prod.splits)

lemma in_section_micro:
  assumes "in_section place draw opr s g l c" and "selector_micro place draw (l, c) (l', c')"
  shows "in_section place draw opr s g l' c'"
proof (cases opr)
  case (Op_StoreNodeList nodes)
  then show ?thesis using assms by (auto elim!: selector_microE simp: StoreNodeList_def)
next
  case (Op_MaybeSelectHopsTo rem)
  obtain ys g1 where ys: "std_sample draw (snodelist s) DefaultHopLength g = (ys, g1)" by fastforce
  from assms(2) show ?thesis
  proof (cases rule: selector_micro.cases)
    case (insert p e t h)
    then show ?thesis
      using assms(1) ys unfolding Op_MaybeSelectHopsTo
      by (auto simp: MaybeSelectHopsTo_def Let_def split: if_splits)
  qed (use assms(1) in \<open>auto simp: Op_MaybeSelectHopsTo ys\<close>)
qed (use assms in simp_all)

lemma in_section_reach:
  "(selector_micro place draw)\<^sup>*\<^sup>* (l0, s, g) (l, c) \<Longrightarrow> selector_start opr = Inr l0 \<Longrightarrow>
    in_section place draw opr s g l c"
proof (induction "(l, c)" arbitrary: l c rule: rtranclp_induct)
  case (step lc l' c')
  then show ?case by (cases lc) (auto intro: in_section_micro)
qed (rule in_section_start)

lemma in_section_finished:
  "in_section place draw opr s g l c \<Longrightarrow> selector_finished l = Some r \<Longrightarrow>
    selector_spec place draw opr (s, g) r c"
  by (cases opr; cases l) (auto split: prod.splits)

text \<open>The node list being there, every statement of a section has a defined effect.\<close>

lemma in_section_goes_on:
  assumes "in_section place draw opr s g l c" and "draw_ok draw" and "snodelist s \<noteq> []"
    and "selector_finished l = None"
  shows "\<exists>c'. selector_micro place draw (l, c) c'"
proof (cases opr)
  case (Op_StoreNodeList nodes)
  then show ?thesis using assms(1,4) by (cases l) (auto intro: selector_micro.intros)
next
  case (Op_MaybeSelectHopsTo rem)
  obtain x xs g1 where ys: "std_sample draw (snodelist s) DefaultHopLength g = (x # xs, g1)"
    using sampled_nonempty [OF assms(2,3)] by metis
  note at = assms(1) [unfolded Op_MaybeSelectHopsTo in_section.simps ys prod.case]
  show ?thesis
  proof (cases l)
    case (Pushing rest p)
    then show ?thesis using at by (cases rest) (auto intro: selector_micro.push selector_micro.pushed)
  next
    case (Choosing_Edge p)
    show ?thesis
    proof (cases "MaxEdges \<le> length (edges s)")
      case True
      obtain e g2 where e: "pick_random_from draw Inr (edges s) g1 = (e, g2)" by fastforce
      then have "e = Inr (hd (edges s))"
        using pick_random_value [OF assms(2), of Inr "edges s" g1] True by (cases "edges s") (auto simp: MaxEdges_def)
      moreover have "\<exists>p'. set_Edge (hd (edges s)) p = Inr p'"
        using at Choosing_Edge by (simp add: set_Edge_def)
      ultimately show ?thesis
        using at Choosing_Edge True e by (auto intro: selector_micro.full)
    next
      case False
      then show ?thesis
        using at Choosing_Edge by (auto intro: selector_micro.few [of s] simp: not_le)
    qed
  next
    case (Inserting_Edge p)
    then have "hops p \<noteq> []"
      using at by (auto simp: set_Edge_def split: if_splits)
    then have "Edge p = Inr (hd (hops p))" by (cases "hops p") simp_all
    then show ?thesis using Inserting_Edge selector_micro.insert [of p _ place draw "fst c" "snd c"] by auto
  next
    case (Sampling_Hops r)
    then have "c = (s, g)" "r = rem" using at by simp_all
    with Sampling_Hops selector_micro.sample [OF ys, of place rem] show ?thesis by blast
  qed (use assms(1,4) in \<open>auto simp: Op_MaybeSelectHopsTo ys\<close>)
qed (use assms(1) in simp_all)

fun selector_left :: "selector_local \<Rightarrow> nat" where
  "selector_left (Assigning nodes) = 2"
| "selector_left (Half_Assigned nodes) = 1"
| "selector_left Stored = 0"
| "selector_left (Sampling_Hops rem) = 8"
| "selector_left (Pushing rest p) = 3 + length rest"
| "selector_left (Choosing_Edge p) = 2"
| "selector_left (Inserting_Edge p) = 1"
| "selector_left (Selected p) = 0"

fun stores_nodes :: "selector_op \<Rightarrow> bool" where
  "stores_nodes (Op_StoreNodeList nodes) \<longleftrightarrow> nodes \<noteq> []"
| "stores_nodes opr \<longleftrightarrow> True"

lemma selector_left_decreases:
  assumes "selector_micro place draw (l, c) (l', c')" and "draw_ok draw"
  shows "selector_left l' < selector_left l"
  using assms(1)
proof (cases rule: selector_micro.cases)
  case (sample s g sampled g' rem)
  then show ?thesis
    using std_sample_spec [OF assms(2), of "snodelist s" DefaultHopLength g] by (simp add: DefaultHopLength_def)
qed simp_all

lemma selector_good_kept:
  assumes "selector_spec place draw opr c r c'" and "draw_ok draw" and "stores_nodes opr"
    and "snodelist (fst c) \<noteq> []"
  shows "snodelist (fst c') \<noteq> []"
proof (cases opr)
  case (Op_MaybeSelectHopsTo rem)
  then show ?thesis
    using assms(1) select_cases [OF assms(2,4), of place rem "snd c"] assms(4) by (metis fst_conv snd_conv selector_spec.simps(2))
qed (use assms in \<open>auto simp: StoreNodeList_def OnionPathFailed_def OnionPathSuccess_def\<close>)

interpretation selector: ending_object selector_start "selector_micro place draw" selector_finished
    "selector_spec place draw" "draw_ok draw" selector_left stores_nodes "\<lambda>c. snodelist (fst c) \<noteq> []"
  for place draw
proof unfold_locales
  show "selector_spec place draw opr s r s'"
    if "selector_start opr = Inr l0" "(selector_micro place draw)\<^sup>*\<^sup>* (l0, s) (l, s')" "selector_finished l = Some r"
    for opr l0 s l s' r
    using in_section_finished [OF in_section_reach [of place draw l0 "fst s" "snd s"]] that by simp
  show "selector_spec place draw opr s r s" if "selector_start opr = Inl r" for opr r s
    using that by (cases opr) (auto simp: OnionPathFailed_def OnionPathSuccess_def)
  show "selector_left l' < selector_left l"
    if "draw_ok draw" "selector_micro place draw (l, s) (l', s')" for l s l' s'
    using selector_left_decreases [OF that(2,1)] .
  show "snodelist (fst s') \<noteq> []"
    if "draw_ok draw" "selector_spec place draw opr s r s'" "stores_nodes opr" "snodelist (fst s) \<noteq> []"
    for opr s r s'
    using selector_good_kept [OF that(2,1,3,4)] .
  show "\<exists>c. selector_micro place draw (l, s') c"
    if "draw_ok draw" "selector_start opr = Inr l0" "stores_nodes opr" "snodelist (fst s) \<noteq> []"
      "(selector_micro place draw)\<^sup>*\<^sup>* (l0, s) (l, s')" "selector_finished l = None" for opr l0 s l s'
    using in_section_goes_on [OF in_section_reach [of place draw l0 "fst s" "snd s"]] that by simp
qed

text \<open>A run of whole operations, as \<open>Path_Selection\<close> has it, and the paths it hands out.\<close>

definition paths_of :: "(selector_op \<times> selector_result) list \<Rightarrow> onion_path list" where
  "paths_of ops = concat (map (\<lambda>(opr, r). case r of Some_Path (Some p) \<Rightarrow> [p] | _ \<Rightarrow> []) ops)"

lemma paths_of_simps [simp]:
  "paths_of [] = []"
  "paths_of (xs @ ys) = paths_of xs @ paths_of ys"
  "paths_of [(opr, r)] = (case r of Some_Path (Some p) \<Rightarrow> [p] | _ \<Rightarrow> [])"
  by (simp_all add: paths_of_def)

lemma MaybeSelect_never_None: "MaybeSelectHopsTo place draw rem s g \<noteq> (Inr None, c)"
  by (auto simp: MaybeSelectHopsTo_def Let_def split: prod.splits sum.splits)

lemma selector_spec_run:
  assumes "selector_spec place draw opr c r c'"
  shows "selector_run place draw c (paths_of [(opr, r)]) c'"
proof -
  obtain s g s' g' where c: "c = (s, g)" "c' = (s', g')" by fastforce
  have one: "selector_step place draw c ps c' \<Longrightarrow> selector_run place draw c ps c'" for ps
    using selector_run.step [OF selector_run.stop] by fastforce
  show ?thesis
  proof (cases opr)
    case (Op_MaybeSelectHopsTo rem)
    then obtain p where p: "r = Some_Path p" "MaybeSelectHopsTo place draw rem s g = (Inr p, c')"
      using assms c by auto
    have "p \<noteq> None" using p(2) MaybeSelect_never_None by metis
    then obtain q where "p = Some q" by auto
    with p one [of "[q]"] show ?thesis by (auto simp: c intro: selector_step.select)
  next
    case Op_DefaultHopLength
    then show ?thesis using assms by (auto intro: selector_run.stop)
  qed (use assms c one [of "[]"] in \<open>auto intro: selector_step.intros\<close>)
qed

lemma selector_run_append:
  assumes "selector_run place draw c' qs c''" and "selector_run place draw c ps c'"
  shows "selector_run place draw c (ps @ qs) c''"
  using assms
proof (induction rule: selector_run.induct)
  case (step c' qs c1 rs c2)
  then show ?case using selector_run.step [of place draw c "ps @ qs" c1 rs c2] by simp
qed simp

lemma sequential_selector_run:
  "sequential (selector_spec place draw) c ops c' \<Longrightarrow> selector_run place draw c (paths_of ops) c'"
proof (induction rule: sequential.induct)
  case (more s ops s' opr r s'')
  then show ?case using selector_run_append [OF selector_spec_run [OF more.hyps(2)]] by simp
qed (simp add: selector_run.stop)

lemma paths_of_member:
  "p \<in> set (paths_of ops) \<longleftrightarrow> (\<exists>opr. (opr, Some_Path (Some p)) \<in> set ops)"
  by (force simp: paths_of_def split: selector_result.splits option.splits)

lemma sequential_paths:
  assumes "sequential (selector_spec place draw) c ops c'" and "place_ok place" and "draw_ok draw"
    and "knows_only Q (fst c)"
    and "\<forall>(opr, r) \<in> set ops. \<forall>nodes. opr = Op_StoreNodeList nodes \<longrightarrow> (\<forall>(k, n) \<in> set nodes. Q n)"
  shows "knows_only Q (fst c') \<and>
    (\<forall>opr p. (opr, Some_Path (Some p)) \<in> set ops \<longrightarrow> opr = Op_MaybeSelectHopsTo (remote p) \<and>
      hops p \<noteq> [] \<and> length (hops p) \<le> 4 \<and> (\<forall>n \<in> set (hops p). Q n))"
  using assms(1,4,5)
proof (induction rule: sequential.induct)
  case (more s ops s1 opr r s2)
  then have IH: "knows_only Q (fst s1)"
      "\<forall>opr p. (opr, Some_Path (Some p)) \<in> set ops \<longrightarrow> opr = Op_MaybeSelectHopsTo (remote p) \<and>
        hops p \<noteq> [] \<and> length (hops p) \<le> 4 \<and> (\<forall>n \<in> set (hops p). Q n)"
    by auto
  show ?case
  proof (cases opr)
    case (Op_MaybeSelectHopsTo rem)
    then obtain q where q: "r = Some_Path q" "MaybeSelectHopsTo place draw rem (fst s1) (snd s1) = (Inr q, s2)"
      using more.hyps(2) by auto
    then have "q \<noteq> None" using MaybeSelect_never_None by metis
    then obtain p where p: "q = Some p" by auto
    have "MaybeSelectHopsTo place draw rem (fst s1) (snd s1) = (Inr (Some p), fst s2, snd s2)"
      using q(2) p by simp
    from knows_only_select [OF this assms(3,2) IH(1)] show ?thesis
      using IH(2) q(1) p Op_MaybeSelectHopsTo by auto
  qed (use more.hyps(2) more.prems(2) IH in \<open>auto simp: OnionPathFailed_def OnionPathSuccess_def\<close>)
qed simp

abbreviation selector_threads where
  "selector_threads place draw \<equiv> machine_run selector_start (selector_micro place draw) selector_finished"

text \<open>What every path is that a thread gets.\<close>

lemma returned_path:
  assumes "selector_threads place draw (new_machine (s, g)) tr m" and "place_ok place" and "draw_ok draw"
    and "knows_only Q s"
    and "\<forall>i nodes. Invoke i (Op_StoreNodeList nodes) \<in> set tr \<longrightarrow> (\<forall>(k, n) \<in> set nodes. Q n)"
    and "Return i opr (Some_Path (Some p)) \<in> set tr"
  shows "opr = Op_MaybeSelectHopsTo (remote p)" and "hops p \<noteq> []" and "length (hops p) \<le> 4"
    and "\<forall>n \<in> set (hops p). Q n" and "4 \<le> length (edges s) \<Longrightarrow> Edge p = Inr (hd (edges s))"
proof -
  have order: "calls_in_order tr" by (rule selector.linearizable(2) [OF assms(1)])
  from selector.linearizable(1) [OF assms(1)] obtain c where
      c: "sequential (selector_spec place draw) (s, g) (commits tr) c"
    by (elim exE conjE)
  have p: "(opr, Some_Path (Some p)) \<in> set (commits tr)"
    using return_committed [OF order assms(6)] by (auto simp: commits_iff)
  have "\<forall>(opr, r) \<in> set (commits tr). \<forall>nodes. opr = Op_StoreNodeList nodes \<longrightarrow> (\<forall>(k, n) \<in> set nodes. Q n)"
    using assms(5) commit_invoked [OF order] by (fastforce simp: commits_iff)
  from sequential_paths [OF c assms(2,3) _ this] assms(4) p
  show "opr = Op_MaybeSelectHopsTo (remote p)" "hops p \<noteq> []" "length (hops p) \<le> 4" "\<forall>n \<in> set (hops p). Q n"
    by simp_all
  show "4 \<le> length (edges s) \<Longrightarrow> Edge p = Inr (hd (edges s))"
    using selector_run_frozen [OF sequential_selector_run [OF c] assms(3)] p
    by (auto simp: paths_of_member MaxEdges_def)
qed

subsection \<open>Properties\<close>

definition ref_selector :: path_selection where
  "ref_selector = \<lparr>snodelist = ref_nodes 5, edges = []\<rparr>"

lemma ref_selector: "snodelist ref_selector \<noteq> []" "edges ref_selector = []"
  by (simp_all add: ref_selector_def ref_nodes_5)

text \<open>
  C14. Threads that use one selector never get in each other's way: however their statements
  interleave, at most one is inside a section, and the operations take effect one at a time, each
  between its call and its return, with the results the sequential operations give in that order;
  while no thread is inside, the selector is as they leave it.
\<close>

theorem selector_threads_linearizable:
  assumes "selector_threads place draw (new_machine c) tr m"
  shows "calls_in_order tr \<and>
    (\<forall>i j p q k l. acts m i = Inside p k \<and> acts m j = Inside q l \<longrightarrow> i = j) \<and>
    (\<exists>c'. sequential (selector_spec place draw) c (commits tr) c' \<and> (owner m = None \<longrightarrow> shared m = c'))"
  using selector.linearizable [OF assms] by blast

theorem selector_threads_linearizable_witness:
  "\<exists>m. selector_threads place_front (prng_draw ref_sodium) (new_machine (ref_selector, 0))
      [Invoke 0 (Op_StoreNodeList (ref_nodes 3)), Invoke 1 (Op_MaybeSelectHopsTo (Remote_SNode ref_node))] m \<and>
    acts m 0 = Inside (Op_StoreNodeList (ref_nodes 3)) (Half_Assigned (ref_nodes 3)) \<and>
    snodelist (fst (shared m)) = [] \<and> (\<forall>p l. acts m 1 \<noteq> Inside p l)"
proof -
  let ?run = "selector_threads place_front (prng_draw ref_sodium)"
  let ?st = "Op_StoreNodeList (ref_nodes 3)" and ?sel = "Op_MaybeSelectHopsTo (Remote_SNode ref_node)"
  let ?a = "(\<lambda>i. Idle)(0 := Inside ?st (Half_Assigned (ref_nodes 3)), 1 := Waiting ?sel)"
  have "?run (new_machine (ref_selector, 0)) [] \<lparr>owner = None, shared = (ref_selector, 0), acts = \<lambda>i. Idle\<rparr>"
    by (simp add: new_machine_def machine_run.stop)
  note 1 = extend_run(1) [OF this, of 0 ?st]
  note 2 = extend_run(1) [OF 1, of 1 ?sel]
  note 3 = extend_run(2) [OF 2, of 0 ?st "Assigning (ref_nodes 3)"]
  note 4 = extend_run(3) [OF 3 _ selector_micro.torn, of 0 ?st "ref_nodes 3" "[]"]
  have run: "?run (new_machine (ref_selector, 0)) [Invoke 0 ?st, Invoke 1 ?sel]
      \<lparr>owner = Some 0, shared = (ref_selector\<lparr>snodelist := []\<rparr>, 0), acts = ?a\<rparr>"
    using 4 by (simp add: fun_upd_twist)
  let ?m = "\<lparr>owner = Some 0, shared = (ref_selector\<lparr>snodelist := []\<rparr>, 0), acts = ?a\<rparr>"
  have "acts ?m 0 = Inside ?st (Half_Assigned (ref_nodes 3))" by simp
  moreover have "acts ?m 1 \<noteq> Inside p l" for p l
    using selector_threads_linearizable [OF run, THEN conjunct2, THEN conjunct1, rule_format, of 0 ?st _ 1 p] by auto
  ultimately show ?thesis using run by (intro exI [of _ ?m]) simp
qed

text \<open>
  C25. Whatever the schedule, every path handed out has one to four hops, all of them nodes of the lists
  stored (never of a list half assigned), whatever else is called meanwhile; while no thread is
  inside there are at most four edges, no two with one identity; and if there were four from the
  start, every path goes through the same one.
\<close>

theorem selector_threads_paths:
  assumes "selector_threads place draw (new_machine (s, g)) tr m" and "place_ok place" and "draw_ok draw"
    and "knows_only Q s" and "length (edges s) \<le> 4" and "distinct (map identity (edges s))"
    and "\<forall>i nodes. Invoke i (Op_StoreNodeList nodes) \<in> set tr \<longrightarrow> (\<forall>(k, n) \<in> set nodes. Q n)"
  shows "(\<forall>i opr p. Return i opr (Some_Path (Some p)) \<in> set tr \<longrightarrow> opr = Op_MaybeSelectHopsTo (remote p) \<and>
      hops p \<noteq> [] \<and> length (hops p) \<le> 4 \<and> (\<forall>n \<in> set (hops p). Q n) \<and>
      (length (edges s) = 4 \<longrightarrow> Edge p = Inr (hd (edges s)))) \<and>
    (owner m = None \<longrightarrow> length (edges (fst (shared m))) \<le> 4 \<and> distinct (map identity (edges (fst (shared m)))))"
proof
  show "\<forall>i opr p. Return i opr (Some_Path (Some p)) \<in> set tr \<longrightarrow> opr = Op_MaybeSelectHopsTo (remote p) \<and>
      hops p \<noteq> [] \<and> length (hops p) \<le> 4 \<and> (\<forall>n \<in> set (hops p). Q n) \<and>
      (length (edges s) = 4 \<longrightarrow> Edge p = Inr (hd (edges s)))"
    using returned_path [OF assms(1-4,7)] by simp
  from selector.linearizable(1) [OF assms(1)] obtain c where
      c: "sequential (selector_spec place draw) (s, g) (commits tr) c" and free: "owner m = None \<longrightarrow> shared m = c"
    by (elim exE conjE)
  have "edges_ok (fst c)"
    by (rule selector_run_edges_ok [OF sequential_selector_run [OF c] assms(2,3)])
      (use assms(5,6) in \<open>simp add: edges_ok_def MaxEdges_def\<close>)
  then show "owner m = None \<longrightarrow> length (edges (fst (shared m))) \<le> 4 \<and> distinct (map identity (edges (fst (shared m))))"
    using free by (auto simp: edges_ok_def MaxEdges_def)
qed

theorem selector_threads_paths_witness:
  "\<exists>tr m p. selector_threads place_front (prng_draw ref_sodium) (new_machine (ref_selector, 0)) tr m \<and>
    Return 3 (Op_MaybeSelectHopsTo (Remote_SNode ref_node)) (Some_Path (Some p)) \<in> set tr \<and>
    hops p \<noteq> [] \<and> length (hops p) \<le> 4 \<and> set (hops p) \<subseteq> snd ` set (ref_nodes 5)"
proof -
  let ?d = "prng_draw ref_sodium" and ?sel = "Op_MaybeSelectHopsTo (Remote_SNode ref_node)"
  obtain r c where r: "selector_spec place_front ?d ?sel (ref_selector, 0) r c"
      and run: "selector_threads place_front ?d (new_machine (ref_selector, 0))
        [Invoke 3 ?sel, Commit 3 ?sel r, Return 3 ?sel r] ((new_machine (ref_selector, 0))\<lparr>shared := c\<rparr>)"
    using selector.solo_call [OF prng_draw_ok, of ?sel "Sampling_Hops (Remote_SNode ref_node)"
        "new_machine (ref_selector, 0)" 3 place_front ref_sodium] ref_selector
    by (auto simp: new_machine_def)
  then obtain q where q: "r = Some_Path q" "MaybeSelectHopsTo place_front ?d (Remote_SNode ref_node) ref_selector 0 = (Inr q, c)"
    by auto
  then have "q \<noteq> None" using MaybeSelect_never_None by metis
  then obtain p where p: "q = Some p" by auto
  have known: "knows_only (\<lambda>n. n \<in> snd ` set (ref_nodes 5)) ref_selector"
    by (force simp: knows_only_def ref_selector_def)
  have "hops p \<noteq> [] \<and> length (hops p) \<le> 4 \<and> set (hops p) \<subseteq> snd ` set (ref_nodes 5)"
    using selector_threads_paths [OF run place_ok_examples(1) prng_draw_ok known] ref_selector q(1) p
    by auto
  with run q(1) p show ?thesis by (metis list.set_intros(1,2))
qed

text \<open>
  C20. No call hangs: once nodes are stored and as long as only non-empty lists are, n threads that make
  no new calls take at most 11 n more steps, however they are scheduled, and when no step is left
  every call has returned: the lock is given back on every way out of a section.
\<close>

theorem selector_calls_return:
  assumes "selector_threads place draw (new_machine (s, g)) tr m" and "draw_ok draw" and "snodelist s \<noteq> []"
    and "\<forall>i nodes. Invoke i (Op_StoreNodeList nodes) \<in> set tr \<longrightarrow> nodes \<noteq> []"
    and "(quiet_step selector_start (selector_micro place draw) selector_finished ^^ k) m m'"
    and "\<And>i. n \<le> i \<Longrightarrow> acts m i = Idle"
  shows "k \<le> 11 * n \<and>
    ((\<nexists>m''. quiet_step selector_start (selector_micro place draw) selector_finished m' m'') \<longleftrightarrow>
     (\<forall>i. acts m' i = Idle))"
proof -
  have allowed: "\<forall>i p. Invoke i p \<in> set tr \<longrightarrow> stores_nodes p"
    using assms(4) by (metis stores_nodes.elims(3))
  have start: "selector_left l \<le> 8" if "selector_start p = Inr l" for p l
    using that by (cases p) auto
  have "snodelist (fst (s, g)) \<noteq> []" using assms(3) by simp
  from selector.calls_end [OF assms(1,2) this allowed assms(5,6) start, of n] show ?thesis by simp
qed

theorem selector_calls_return_witness:
  "\<exists>m. selector_threads place_front (prng_draw ref_sodium) (new_machine (ref_selector, 0))
      [Invoke 0 (Op_MaybeSelectHopsTo (Remote_SNode ref_node)), Invoke 1 Op_DefaultHopLength] m \<and>
    (\<exists>m'. quiet_step selector_start (selector_micro place_front (prng_draw ref_sodium)) selector_finished m m')"
proof -
  let ?d = "prng_draw ref_sodium" and ?sel = "Op_MaybeSelectHopsTo (Remote_SNode ref_node)"
  let ?m = "\<lparr>owner = None, shared = (ref_selector, 0),
    acts = (\<lambda>i. Idle)(0 := Waiting ?sel, 1 := Waiting Op_DefaultHopLength)\<rparr>"
  have "selector_threads place_front ?d (new_machine (ref_selector, 0)) []
      \<lparr>owner = None, shared = (ref_selector, 0), acts = \<lambda>i. Idle\<rparr>"
    by (simp add: new_machine_def machine_run.stop)
  note 1 = extend_run(1) [OF this, of 0 ?sel]
  note 2 = extend_run(1) [OF 1, of 1 Op_DefaultHopLength]
  then have run: "selector_threads place_front ?d (new_machine (ref_selector, 0))
      [Invoke 0 ?sel, Invoke 1 Op_DefaultHopLength] ?m"
    by simp
  have "(quiet_step selector_start (selector_micro place_front ?d) selector_finished ^^ 0) ?m ?m" by simp
  from selector_calls_return [OF run prng_draw_ok ref_selector(1) _ this, of 2]
  have "\<exists>m'. quiet_step selector_start (selector_micro place_front ?d) selector_finished ?m m'"
    by (auto dest: spec [of _ 0])
  with run show ?thesis by blast
qed

end
