(* ===== verification/Messaging.thy ===== *)
theory Messaging
  imports Prelude
begin

text \<open>
  OxenMQ, as far as the code uses it: a parameter. \<open>mq_address\<close> is the \<open>address\<close> constructor
  (\<open>None\<close> where it throws). \<open>mq_connect\<close> is \<open>connect_remote\<close> and the wait for its promise: OxenMQ
  calls exactly one of the two callbacks, the success one with the connection's id or the failure
  one; \<open>'w\<close> is the state of the network and the library. A request is asynchronous: an operation
  that sends one returns the callback it left with the library, which runs once, when the reply
  or a timeout arrives.
\<close>

record ('a, 'c, 'w) oxenmq =
  mq_address :: "bytes \<Rightarrow> 'a option"
  mq_connect :: "'a \<Rightarrow> 'w \<Rightarrow> 'c option \<times> 'w"

text \<open>
  How an operation leaves its caller's handler: called with a value, or to be called with the
  value the reply callback computes from the success flag and the parts of the reply.
\<close>

datatype ('c, 'v) mq_call =
    Called 'v
  | Requested (req_conn: 'c) (req_method: bytes) (req_body: bytes)
      (on_reply: "bool \<Rightarrow> bytes list \<Rightarrow> 'v result")

definition parse_address :: "('a, 'c, 'w) oxenmq \<Rightarrow> bytes \<Rightarrow> 'a result" where
  "parse_address M s = or_throw (mq_address M s) Address_Error"

text \<open>What the handler gets once the network, which \<open>ans\<close> describes, has answered.\<close>

fun settle :: "('c \<Rightarrow> bytes \<Rightarrow> bytes \<Rightarrow> bool \<times> bytes list) \<Rightarrow> ('c, 'v) mq_call \<Rightarrow> 'v result" where
  "settle ans (Called v) = Inr v"
| "settle ans (Requested c m body f) = (case ans c m body of (ok, msgs) \<Rightarrow> f ok msgs)"

text \<open>A network for examples: every non-empty address connects, numbered in order; the state counts.\<close>

definition ref_mq :: "(bytes, nat, nat) oxenmq" where
  "ref_mq = \<lparr>mq_address = (\<lambda>s. if s = [] then None else Some s),
     mq_connect = (\<lambda>a n. (if hd a = 33 then None else Some n, Suc n))\<rparr>"

end
