(* ===== verification/Transport.thy ===== *)
theory Transport
  imports Onion_Delivery Containers Messaging
begin

text \<open>
  onionreq/transport.hpp and transport.cpp: sending the payload to the first hop over OxenMQ, with
  one cached connection per node. \<open>ObtainConnectionTo\<close> takes its lock twice and not while it
  connects, so threads interleave between its phases: \<open>transport_step\<close> is one phase of one thread
  (that a locked scope counts as one step is proved in \<open>Transport_Locking\<close>).
\<close>

record 'c transport =
  connections :: "(ed25519_pubkey \<times> 'c) list"

definition new_Transport :: "'c transport" where
  "new_Transport = \<lparr>connections = []\<rparr>"

definition ObtainConnectionTo ::
    "oxenc \<Rightarrow> ('a, 'c, 'w) oxenmq \<Rightarrow> (ed25519_pubkey \<times> 'c) placement \<Rightarrow> snode_info \<Rightarrow>
     'c transport \<Rightarrow> 'w \<Rightarrow> 'c option result \<times> 'c transport \<times> 'w" where
  "ObtainConnectionTo X M place info s w =
     (case map_of (connections s) (identity info) of
        Some c \<Rightarrow> (Inr (Some c), s, w)
      | None \<Rightarrow>
          (case parse_address M (DirectAddr X info) of
             Inl e \<Rightarrow> (Inl e, s, w)
           | Inr a \<Rightarrow>
               (case mq_connect M a w of
                  (Some c, w) \<Rightarrow>
                    (let s = s\<lparr>connections := umap_emplace place (connections s) (identity info) c\<rparr>
                     in (Inr (map_of (connections s) (identity info)), s, w))
                | (None, w) \<Rightarrow> (Inr None, s, w))))"

text \<open>The reply callback: what it hands to the response handler.\<close>

definition onion_request_reply :: "bool \<Rightarrow> bytes list \<Rightarrow> bytes option result" where
  "onion_request_reply success msgs =
     (if success \<and> 1 < length msgs then Inr (Some (msgs ! 1)) else Inr None)"

definition SendPayload ::
    "oxenc \<Rightarrow> ('a, 'c, 'w) oxenmq \<Rightarrow> (ed25519_pubkey \<times> 'c) placement \<Rightarrow> onion_payload \<Rightarrow>
     'c transport \<Rightarrow> 'w \<Rightarrow> ('c, bytes option) mq_call result \<times> 'c transport \<times> 'w" where
  "SendPayload X M place payload s w =
     (case Edge (path payload) of
        Inl e \<Rightarrow> (Inl e, s, w)
      | Inr edge \<Rightarrow>
          (case ObtainConnectionTo X M place edge s w of
             (maybe, s, w) \<Rightarrow>
               (ebind maybe (\<lambda>maybe.
                  case maybe of
                    Some c \<Rightarrow> Inr (Requested c (str ''sn.onion_request'') (ciphertext payload)
                      onion_request_reply)
                  | None \<Rightarrow> Inr (Called None)), s, w)))"

subsection \<open>OxenMQ as a transport\<close>

text \<open>
  The state is the cache, the network, and \<open>ans\<close>, the far end of the requests. The network carries
  an answer when a connection to the node is there or comes about and the answer is the second
  part of a successful reply.
\<close>

type_synonym ('c, 'w) omq_state = "'c transport \<times> 'w \<times> ('c \<Rightarrow> bytes \<Rightarrow> bytes \<Rightarrow> bool \<times> bytes list)"

definition omq_deliver ::
    "oxenc \<Rightarrow> ('a, 'c, 'w) oxenmq \<Rightarrow> (ed25519_pubkey \<times> 'c) placement \<Rightarrow> onion_payload \<Rightarrow>
     ('c, 'w) omq_state \<Rightarrow> bytes option result \<times> ('c, 'w) omq_state" where
  "omq_deliver X M place om st =
     (case st of (s, w, ans) \<Rightarrow>
        (case SendPayload X M place om s w of (call, s, w) \<Rightarrow> (ebind call (settle ans), s, w, ans)))"

definition omq_carries ::
    "oxenc \<Rightarrow> ('a, 'c, 'w) oxenmq \<Rightarrow> (ed25519_pubkey \<times> 'c) placement \<Rightarrow> snode_info \<Rightarrow> bytes \<Rightarrow> bytes \<Rightarrow>
     ('c, 'w) omq_state \<Rightarrow> bool" where
  "omq_carries X M place n body d st \<longleftrightarrow>
     (case st of (s, w, ans) \<Rightarrow>
        \<exists>c status rest. fst (ObtainConnectionTo X M place n s w) = Inr (Some c) \<and>
          ans c (str ''sn.onion_request'') body = (True, status # d # rest))"

interpretation omq: payload_transport "omq_deliver X M place" "omq_carries X M place"
  for X M place
  by unfold_locales
    (auto simp: omq_deliver_def omq_carries_def SendPayload_def onion_request_reply_def split: prod.splits)

subsection \<open>Threads\<close>

text \<open>
  The phases of one call; it has thrown where the node's address is none that OxenMQ takes.
\<close>

datatype 'c phase =
    Looking snode_info
  | Connecting snode_info
  | Emplacing snode_info 'c
  | Done snode_info "'c option"
  | Threw snode_info

type_synonym 'c threads = "(ed25519_pubkey \<times> 'c) list \<times> (nat \<Rightarrow> 'c phase)"

inductive transport_step :: "(ed25519_pubkey \<times> 'c) placement \<Rightarrow> 'c threads \<Rightarrow> 'c threads \<Rightarrow> bool"
  for place :: "(ed25519_pubkey \<times> 'c) placement" where
  hit: "ph i = Looking n \<Longrightarrow> map_of es (identity n) = Some c \<Longrightarrow>
    transport_step place (es, ph) (es, ph(i := Done n (Some c)))"
| miss: "ph i = Looking n \<Longrightarrow> map_of es (identity n) = None \<Longrightarrow>
    transport_step place (es, ph) (es, ph(i := Connecting n))"
| connected: "ph i = Connecting n \<Longrightarrow> transport_step place (es, ph) (es, ph(i := Emplacing n c))"
| refused: "ph i = Connecting n \<Longrightarrow> transport_step place (es, ph) (es, ph(i := Done n None))"
| threw: "ph i = Connecting n \<Longrightarrow> transport_step place (es, ph) (es, ph(i := Threw n))"
| emplaced: "ph i = Emplacing n c \<Longrightarrow> es' = umap_emplace place es (identity n) c \<Longrightarrow>
    transport_step place (es, ph) (es', ph(i := Done n (map_of es' (identity n))))"

inductive_cases transport_stepE: "transport_step place (es, ph) (es', ph')"

text \<open>Every result handed out is the connection stored for that node.\<close>

definition threads_ok :: "'c threads \<Rightarrow> bool" where
  "threads_ok c \<longleftrightarrow> distinct (map fst (fst c)) \<and>
     (\<forall>i n k. snd c i = Done n (Some k) \<longrightarrow> map_of (fst c) (identity n) = Some k)"

lemma emplace_keeps:
  assumes "place_ok place" and "distinct (map fst es)" and "map_of es k = Some v"
  shows "map_of (umap_emplace place es k' v') k = Some v"
  by (rule umap_emplace.entry_stable [OF assms])

lemma transport_step_entries:
  assumes "transport_step place (es, ph) (es', ph')" and "place_ok place" and "distinct (map fst es)"
  shows "distinct (map fst es')" and "map_of es k = Some v \<Longrightarrow> map_of es' k = Some v"
  using assms(1)
  by (auto elim!: transport_stepE simp: assms(3) umap_emplace.inv_put [OF assms(2,3)]
      emplace_keeps [OF assms(2,3)])

lemma threads_ok_step:
  assumes "transport_step place c c'" and "place_ok place" and "threads_ok c"
  shows "threads_ok c'"
proof -
  obtain es ph es' ph' where c: "c = (es, ph)" "c' = (es', ph')" by fastforce
  have ok: "distinct (map fst es)" "\<And>i n k. ph i = Done n (Some k) \<Longrightarrow> map_of es (identity n) = Some k"
    using assms(3) by (auto simp: threads_ok_def c)
  note keep = transport_step_entries [OF assms(1)[unfolded c] assms(2) ok(1)]
  have "map_of es' (identity n) = Some k" if "ph' i = Done n (Some k)" for i n k
  proof (cases "ph i = Done n (Some k)")
    case True
    then show ?thesis using ok(2) keep(2) by blast
  next
    case False
    with that assms(1)[unfolded c] show ?thesis
      by (auto elim!: transport_stepE split: if_splits)
  qed
  with keep(1) show ?thesis by (simp add: threads_ok_def c)
qed

lemma threads_ok_run:
  assumes "(transport_step place)\<^sup>*\<^sup>* c c'" and "place_ok place" and "threads_ok c"
  shows "threads_ok c'"
  using assms(1,3) by (induction rule: rtranclp_induct) (auto intro: threads_ok_step [OF _ assms(2)])

lemma entries_stable_run:
  assumes "(transport_step place)\<^sup>*\<^sup>* c c'" and "place_ok place" and "threads_ok c"
    and "map_of (fst c) k = Some v"
  shows "map_of (fst c') k = Some v"
  using assms(1)
proof (induction rule: rtranclp_induct)
  case (step c1 c2)
  have "threads_ok c1" using threads_ok_run [OF step.hyps(1) assms(2,3)] .
  then have "distinct (map fst (fst c1))" by (simp add: threads_ok_def)
  then show ?case
    using transport_step_entries(2) [of place "fst c1" "snd c1" "fst c2" "snd c2" k v]
      step.hyps(2) step.IH assms(2) by simp
qed (rule assms(4))

text \<open>Every phase is one step closer to an answer.\<close>

fun phase_rank :: "'c phase \<Rightarrow> nat" where
  "phase_rank (Looking n) = 3"
| "phase_rank (Connecting n) = 2"
| "phase_rank (Emplacing n c) = 1"
| "phase_rank (Done n r) = 0"
| "phase_rank (Threw n) = 0"

fun phase_node :: "'c phase \<Rightarrow> snode_info" where
  "phase_node (Looking n) = n"
| "phase_node (Connecting n) = n"
| "phase_node (Emplacing n c) = n"
| "phase_node (Done n r) = n"
| "phase_node (Threw n) = n"

lemma transport_step_rank:
  assumes "transport_step place (es, ph) (es', ph')"
  obtains i where "phase_rank (ph' i) < phase_rank (ph i)" and "\<And>j. j \<noteq> i \<Longrightarrow> ph' j = ph j"
proof -
  have "\<exists>i p. ph' = ph(i := p) \<and> phase_rank p < phase_rank (ph i)"
    using assms by (cases rule: transport_step.cases) (intro exI conjI, assumption, simp)+
  with that show ?thesis by (metis fun_upd_other fun_upd_same)
qed

lemma bounded_run:
  assumes "(transport_step place ^^ k) c c'" and "finite I" and "\<And>j. j \<notin> I \<Longrightarrow> phase_rank (snd c j) = 0"
  shows "k + (\<Sum>j \<in> I. phase_rank (snd c' j)) \<le> (\<Sum>j \<in> I. phase_rank (snd c j))"
proof -
  have "\<exists>i. phase_rank (snd y i) < phase_rank (snd x i) \<and> (\<forall>j. j \<noteq> i \<longrightarrow> phase_rank (snd y j) = phase_rank (snd x j))"
    if "transport_step place x y" for x y
    using transport_step_rank [of place "fst x" "snd x" "fst y" "snd y"] that by (metis prod.collapse)
  then show ?thesis
    using bounded_steps [where P = "\<lambda>c. True" and f = "\<lambda>c j. phase_rank (snd c j)", OF _ assms(1) _ assms(2,3)] by blast
qed

lemma phase_node_run:
  "(transport_step place)\<^sup>*\<^sup>* c c' \<Longrightarrow> phase_node (snd c' i) = phase_node (snd c i)"
proof (induction rule: rtranclp_induct)
  case (step b d)
  from step.hyps(2) have "phase_node (snd d i) = phase_node (snd b i)"
    by (cases rule: transport_step.cases) auto
  with step.IH show ?case by simp
qed simp

lemma transport_progress:
  assumes "phase_rank (ph i) \<noteq> 0"
  shows "\<exists>c. transport_step place (es, ph) c"
proof (cases "ph i")
  case (Looking n)
  then show ?thesis
    by (cases "map_of es (identity n)") (blast intro: transport_step.hit transport_step.miss)+
qed (use assms in \<open>auto intro: transport_step.intros\<close>)

subsection \<open>Properties\<close>

definition ref_payload :: onion_payload where
  "ref_payload = \<lparr>ciphertext = [1, 2, 3], path = \<lparr>hops = [ref_node], remote = Remote_SNode ref_node\<rparr>,
     maybeDecryptResponse = (\<lambda>c. Inr None)\<rparr>"

text \<open>
  C16. However many threads send at the same time and however their phases interleave, all that
  obtain a connection to one node obtain the same one, it is the one cached for that node, and a
  cached connection is never replaced, even when two threads connect at once.
\<close>

theorem transport_one_connection:
  assumes "(transport_step place)\<^sup>*\<^sup>* (es, ph) (es', ph')" and "place_ok place"
    and "distinct (map fst es)" and "\<And>i. \<exists>n. ph i = Looking n"
    and "ph' i = Done m (Some c)" and "ph' j = Done n (Some d)" and "identity m = identity n"
  shows "c = d \<and> map_of es' (identity n) = Some d \<and>
    (\<forall>k. map_of es (identity n) = Some k \<longrightarrow> d = k)"
proof -
  have ok: "threads_ok (es, ph)"
    using assms(3,4) by (auto simp: threads_ok_def) (metis phase.distinct(5))
  have "threads_ok (es', ph')" by (rule threads_ok_run [OF assms(1,2) ok])
  then have "map_of es' (identity m) = Some c" "map_of es' (identity n) = Some d"
    using assms(5,6) by (simp_all add: threads_ok_def del: map_of_eq_Some_iff)
  then show ?thesis
    using entries_stable_run [OF assms(1,2) ok, of "identity n"] assms(7)
    by (simp del: map_of_eq_Some_iff)
qed

theorem transport_one_connection_witness:
  "\<exists>ph'. (transport_step place_front)\<^sup>*\<^sup>* ([], \<lambda>i. Looking ref_node) ([(identity ref_node, 7 :: nat)], ph') \<and>
    ph' 0 = Done ref_node (Some 7) \<and> ph' 1 = Done ref_node (Some 7) \<and>
    (\<forall>c d. ph' 0 = Done ref_node (Some c) \<and> ph' 1 = Done ref_node (Some d) \<longrightarrow> c = d)"
proof -
  let ?es = "[(identity ref_node, 7 :: nat)]" and ?st = "transport_step place_front"
  define p0 :: "nat \<Rightarrow> nat phase" where "p0 = (\<lambda>i. Looking ref_node)"
  define p1 where "p1 = p0(0 := Connecting ref_node)"
  define p2 where "p2 = p1(1 := Connecting ref_node)"
  define p3 where "p3 = p2(0 := Emplacing ref_node 7)"
  define p4 where "p4 = p3(1 := Emplacing ref_node 8)"
  define p5 where "p5 = p4(0 := Done ref_node (map_of ?es (identity ref_node)))"
  define p6 where "p6 = p5(1 := Done ref_node (map_of ?es (identity ref_node)))"
  note defs = p0_def p1_def p2_def p3_def p4_def p5_def p6_def
  have 1: "?st ([], p0) ([], p1)" unfolding p1_def by (rule transport_step.miss) (simp_all add: defs)
  have 2: "?st ([], p1) ([], p2)" unfolding p2_def by (rule transport_step.miss) (simp_all add: defs)
  have 3: "?st ([], p2) ([], p3)" unfolding p3_def by (rule transport_step.connected) (simp add: defs)
  have 4: "?st ([], p3) ([], p4)" unfolding p4_def by (rule transport_step.connected) (simp add: defs)
  have 5: "?st ([], p4) (?es, p5)"
    unfolding p5_def by (rule transport_step.emplaced) (simp_all add: defs umap_emplace_def place_front_def)
  have 6: "?st (?es, p5) (?es, p6)"
    unfolding p6_def by (rule transport_step.emplaced) (simp_all add: defs umap_emplace_def)
  have run: "?st\<^sup>*\<^sup>* ([], p0) (?es, p6)"
    using 1 2 3 4 5 6 by (meson converse_rtranclp_into_rtranclp r_into_rtranclp)
  have "c = d" if "p6 0 = Done ref_node (Some c)" "p6 1 = Done ref_node (Some d)" for c d
    using transport_one_connection [OF run place_ok_examples(1) _ _ that] by (simp add: p0_def)
  with run show ?thesis unfolding p0_def by (intro exI [of _ p6]) (auto simp: defs)
qed

text \<open>
  Obtaining connections ends: whatever the schedule, the network and the cache, n threads take at
  most 3 n steps together, and when none of them can take another, each has its answer, for the
  node it asked about, or has thrown because of that node's address.
\<close>

theorem transport_terminates:
  assumes "(transport_step place ^^ k) (es, ph) (es', ph')"
    and "\<And>i. \<exists>m. ph i = (if i < n then Looking m else Done m None)"
  shows "k \<le> 3 * n \<and> ((\<nexists>c. transport_step place (es', ph') c) \<longrightarrow>
    (\<forall>i. ph' i = Threw (phase_node (ph i)) \<or> (\<exists>r. ph' i = Done (phase_node (ph i)) r)))"
proof
  have idle: "phase_rank (snd (es, ph) j) = 0" if "j \<notin> {..<n}" for j
    using assms(2) [of j] that by auto
  have "phase_rank (ph j) \<le> 3" for j
    by (cases "ph j") simp_all
  then have "(\<Sum>j < n. phase_rank (ph j)) \<le> n * 3"
    by (metis card_lessThan sum_bounded_above of_nat_id)
  moreover have "k + (\<Sum>j < n. phase_rank (ph' j)) \<le> (\<Sum>j < n. phase_rank (ph j))"
    using bounded_run [OF assms(1), of "{..<n}"] idle by simp
  ultimately show "k \<le> 3 * n" by simp
  have node: "phase_node (ph' i) = phase_node (ph i)" for i
    using phase_node_run [OF relpowp_imp_rtranclp [OF assms(1)]] by simp
  show "(\<nexists>c. transport_step place (es', ph') c) \<longrightarrow>
    (\<forall>i. ph' i = Threw (phase_node (ph i)) \<or> (\<exists>r. ph' i = Done (phase_node (ph i)) r))"
  proof (intro impI allI)
    fix i assume stuck: "\<nexists>c. transport_step place (es', ph') c"
    then have "phase_rank (ph' i) = 0"
      using transport_progress [of ph' i place es'] by auto
    then show "ph' i = Threw (phase_node (ph i)) \<or> (\<exists>r. ph' i = Done (phase_node (ph i)) r)"
      using node [of i] by (cases "ph' i") auto
  qed
qed

theorem transport_terminates_witness:
  "\<exists>ph' :: nat \<Rightarrow> nat phase. (transport_step place_front ^^ 1)
      ([(identity ref_node, 7)], \<lambda>i. if i < 1 then Looking ref_node else Done ref_node None)
      ([(identity ref_node, 7)], ph') \<and> (1 :: nat) \<le> 3 * 1 \<and> ph' 0 = Done ref_node (Some 7)"
proof -
  let ?ph = "\<lambda>i. if i < 1 then Looking ref_node else Done ref_node None"
  have "transport_step place_front ([(identity ref_node, 7 :: nat)], ?ph)
      ([(identity ref_node, 7)], ?ph(0 := Done ref_node (Some 7)))"
    by (rule transport_step.hit) simp_all
  then have run: "(transport_step place_front ^^ 1) ([(identity ref_node, 7 :: nat)], ?ph)
      ([(identity ref_node, 7)], ?ph(0 := Done ref_node (Some 7)))"
    unfolding relpowp_1 .
  with transport_terminates [OF run, of 1] show ?thesis
    by (intro exI [of _ "?ph(0 := Done ref_node (Some 7))"]) simp
qed

text \<open>
  The sequential \<open>ObtainConnectionTo\<close> is one thread's run of those phases, exceptions included: it
  refines the step relation, so what holds of every interleaving holds of it.
\<close>

theorem ObtainConnectionTo_refines:
  assumes "ObtainConnectionTo X M place info s w = (out, s', w')" and "ph i = Looking info"
  shows "(transport_step place)\<^sup>*\<^sup>* (connections s, ph)
    (connections s', ph(i := (case out of Inl err \<Rightarrow> Threw info | Inr m \<Rightarrow> Done info m)))"
proof (cases "map_of (connections s) (identity info)")
  case (Some c)
  then show ?thesis
    using assms transport_step.hit [of ph i info "connections s" c place]
    by (auto simp: ObtainConnectionTo_def)
next
  case None
  let ?st = "transport_step place" and ?c = "ph(i := Connecting info)"
  have 1: "?st (connections s, ph) (connections s, ?c)"
    using transport_step.miss [of ph i info "connections s" place] assms(2) None by simp
  have via: "?st\<^sup>*\<^sup>* (connections s, ph) d" if "?st (connections s, ?c) d" for d
    using 1 that by (meson converse_rtranclp_into_rtranclp r_into_rtranclp)
  show ?thesis
  proof (cases "parse_address M (DirectAddr X info)")
    case (Inl err)
    then show ?thesis
      using via [OF transport_step.threw [of ?c i info]] assms(1) None by (auto simp: ObtainConnectionTo_def)
  next
    case (Inr a)
    obtain r w1 where r: "mq_connect M a w = (r, w1)" by fastforce
    show ?thesis
    proof (cases r)
      case None
      then show ?thesis
        using via [OF transport_step.refused [of ?c i info]] assms(1) Inr r
          \<open>map_of (connections s) (identity info) = None\<close> by (auto simp: ObtainConnectionTo_def)
    next
      case (Some c)
      let ?es = "umap_emplace place (connections s) (identity info) c" and ?e = "ph(i := Emplacing info c)"
      have 2: "?st (connections s, ?c) (connections s, ?e)"
        using transport_step.connected [of ?c i info place "connections s" c] by simp
      have 3: "?st (connections s, ?e) (?es, ph(i := Done info (map_of ?es (identity info))))"
        using transport_step.emplaced [of ?e i info c ?es place "connections s"] by simp
      show ?thesis
        using via [OF 2] 3 assms(1) None Inr r Some
        by (auto simp: ObtainConnectionTo_def Let_def intro: rtranclp.rtrancl_into_rtrancl)
    qed
  qed
qed

theorem ObtainConnectionTo_refines_witness:
  "(transport_step place_front)\<^sup>*\<^sup>* ([], \<lambda>i. Looking ref_node)
    ([(identity ref_node, 4 :: nat)], (\<lambda>i. Looking ref_node)(2 := Done ref_node (Some 4)))"
proof -
  have "ObtainConnectionTo ref_oxenc ref_mq place_front ref_node new_Transport 4
      = (Inr (Some 4), \<lparr>connections = [(identity ref_node, 4)]\<rparr>, 5)"
    by (simp add: ObtainConnectionTo_def new_Transport_def parse_address_def ref_mq_def DirectAddr_def
        str_def umap_emplace_def place_front_def)
  from ObtainConnectionTo_refines [OF this, of "\<lambda>i. Looking ref_node" 2] show ?thesis
    by (simp add: new_Transport_def)
qed

text \<open>
  A payload is sent unchanged to the first hop of its path: over the cached connection when
  there is one, without connecting; else over a new one to the node's direct address, which is
  cached; when no connection comes about the handler is called with \<open>nullopt\<close>. The reply callback
  hands the handler the second part of a successful reply and \<open>nullopt\<close> for every other reply.
\<close>

theorem SendPayload_outcome:
  assumes "Edge (path payload) = Inr n" and "place_ok place" and "distinct (map fst (connections s))"
    and "mq_address M (DirectAddr X n) = Some a" and "mq_connect M a w = (r, w')"
  shows "\<exists>call s2 w2. SendPayload X M place payload s w = (Inr call, s2, w2) \<and>
    (case (map_of (connections s) (identity n), r) of
       (Some c, _) \<Rightarrow> s2 = s \<and> w2 = w \<and>
         call = Requested c (str ''sn.onion_request'') (ciphertext payload) onion_request_reply
     | (None, Some c) \<Rightarrow> w2 = w' \<and> map_of (connections s2) (identity n) = Some c \<and>
         call = Requested c (str ''sn.onion_request'') (ciphertext payload) onion_request_reply
     | (None, None) \<Rightarrow> s2 = s \<and> w2 = w' \<and> call = Called None) \<and>
    (\<forall>ok msgs. onion_request_reply ok msgs = Inr (if ok \<and> 2 \<le> length msgs then Some (msgs ! 1) else None))"
  using assms umap_emplace.lookup_put [OF assms(2,3)]
  by (auto simp: SendPayload_def ObtainConnectionTo_def parse_address_def onion_request_reply_def
      Let_def split: option.splits)

theorem SendPayload_outcome_witness:
  "\<exists>call s2 w2. SendPayload ref_oxenc ref_mq place_front ref_payload new_Transport 4 = (Inr call, s2, w2) \<and>
    call = Requested 4 (str ''sn.onion_request'') [1, 2, 3] onion_request_reply \<and> w2 = 5"
  using SendPayload_outcome [of ref_payload ref_node place_front new_Transport ref_mq ref_oxenc
      "DirectAddr ref_oxenc ref_node" 4 "Some 4" 5]
  by (auto simp: ref_payload_def place_ok_examples new_Transport_def ref_mq_def DirectAddr_def str_def)

end
