(* ===== verification/Transport_Locking.thy ===== *)
theory Transport_Locking
  imports Transport Locking
begin

text \<open>
  The two locked scopes of \<open>Transport_OMQ::ObtainConnectionTo\<close> (onionreq/transport.cpp), statement by
  statement: looking up the cached connection of a node, and putting a new one into the cache.
  \<open>Transport\<close> takes each of them as one step; this is what the mutex makes them.
\<close>

datatype 'c cache_op =
    Op_Find (op_key: ed25519_pubkey)
  | Op_Emplace (op_key: ed25519_pubkey) 'c

text \<open>
  The locals: the iterators are the keys of the entries they point to. While an element is being
  emplaced, \<open>Half_Emplaced\<close> holds the entries there were, and a reader would see anything.
\<close>

datatype 'c cache_local =
    Finding ed25519_pubkey
  | Emplacing_Entry ed25519_pubkey 'c
  | Half_Emplaced ed25519_pubkey 'c "(ed25519_pubkey \<times> 'c) list"
  | At_Entry ed25519_pubkey
  | Scope_Result "'c option"

fun cache_start :: "'c cache_op \<Rightarrow> 'c option + 'c cache_local" where
  "cache_start (Op_Find k) = Inr (Finding k)"
| "cache_start (Op_Emplace k c) = Inr (Emplacing_Entry k c)"

inductive cache_micro ::
    "(ed25519_pubkey \<times> 'c) placement \<Rightarrow> 'c cache_local \<times> (ed25519_pubkey \<times> 'c) list \<Rightarrow>
     'c cache_local \<times> (ed25519_pubkey \<times> 'c) list \<Rightarrow> bool"
  for place :: "(ed25519_pubkey \<times> 'c) placement" where
  found: "map_of es k = Some c \<Longrightarrow> cache_micro place (Finding k, es) (At_Entry k, es)"
| not_found: "map_of es k = None \<Longrightarrow> cache_micro place (Finding k, es) (Scope_Result None, es)"
| rehash: "cache_micro place (Emplacing_Entry k c, es) (Half_Emplaced k c es, any)"
| put: "cache_micro place (Half_Emplaced k c es, es') (At_Entry k, umap_emplace place es k c)"
| read: "map_of es k = Some c \<Longrightarrow> cache_micro place (At_Entry k, es) (Scope_Result (Some c), es)"

fun cache_finished :: "'c cache_local \<Rightarrow> 'c option option" where
  "cache_finished (Scope_Result r) = Some r"
| "cache_finished l = None"

inductive_cases cache_microE: "cache_micro place (l, es) (l', es')"

fun cache_spec ::
    "(ed25519_pubkey \<times> 'c) placement \<Rightarrow> 'c cache_op \<Rightarrow> (ed25519_pubkey \<times> 'c) list \<Rightarrow> 'c option \<Rightarrow>
     (ed25519_pubkey \<times> 'c) list \<Rightarrow> bool" where
  "cache_spec place (Op_Find k) es r es' \<longleftrightarrow> es' = es \<and> r = map_of es k"
| "cache_spec place (Op_Emplace k c) es r es' \<longleftrightarrow>
     es' = umap_emplace place es k c \<and> (\<exists>d. r = Some d \<and> map_of es' k = Some d)"

subsection \<open>Lemmas\<close>

fun in_scope ::
    "(ed25519_pubkey \<times> 'c) placement \<Rightarrow> 'c cache_op \<Rightarrow> (ed25519_pubkey \<times> 'c) list \<Rightarrow> 'c cache_local \<Rightarrow>
     (ed25519_pubkey \<times> 'c) list \<Rightarrow> bool" where
  "in_scope place (Op_Find k) es l es' \<longleftrightarrow> es' = es \<and>
     (l = Finding k \<or> l = At_Entry k \<and> map_of es k \<noteq> None \<or> l = Scope_Result (map_of es k))"
| "in_scope place (Op_Emplace k c) es l es' \<longleftrightarrow>
     l = Emplacing_Entry k c \<and> es' = es \<or> l = Half_Emplaced k c es \<or>
     es' = umap_emplace place es k c \<and>
       (l = At_Entry k \<or> l = Scope_Result (map_of es' k) \<and> map_of es' k \<noteq> None)"

lemma in_scope_micro:
  assumes "cache_micro place (l, es1) (l', es2)" and "in_scope place opr es l es1"
  shows "in_scope place opr es l' es2"
  using assms by (cases opr) (auto elim!: cache_microE)

lemma in_scope_reach:
  "(cache_micro place)\<^sup>*\<^sup>* (l0, es) (l, es') \<Longrightarrow> cache_start opr = Inr l0 \<Longrightarrow> in_scope place opr es l es'"
proof (induction "(l, es')" arbitrary: l es' rule: rtranclp_induct)
  case base
  then show ?case by (cases opr) auto
next
  case (step c l' es2)
  then show ?case by (cases c) (auto intro: in_scope_micro)
qed

fun cache_left :: "'c cache_local \<Rightarrow> nat" where
  "cache_left (Finding k) = 2"
| "cache_left (Emplacing_Entry k c) = 3"
| "cache_left (Half_Emplaced k c es) = 2"
| "cache_left (At_Entry k) = 1"
| "cache_left (Scope_Result r) = 0"

interpretation cache: ending_object cache_start "cache_micro place" cache_finished "cache_spec place"
    "place_ok place" cache_left "\<lambda>opr. True" "\<lambda>es. distinct (map fst es)"
  for place
proof unfold_locales
  show "cache_spec place opr es r es'"
    if "cache_start opr = Inr l0" "(cache_micro place)\<^sup>*\<^sup>* (l0, es) (l, es')" "cache_finished l = Some r"
    for opr l0 es l es' r
    using in_scope_reach [OF that(2,1)] that(3) by (cases opr) (auto elim: cache_finished.elims)
  show "cache_spec place opr es r es" if "cache_start opr = Inl r" for opr r es
    using that by (cases opr) simp_all
  show "cache_left l' < cache_left l" if "cache_micro place (l, es) (l', es')" for l es l' es'
    using that by (cases rule: cache_micro.cases) simp_all
  show "distinct (map fst es')"
    if "place_ok place" "cache_spec place opr es r es'" "distinct (map fst es)" for opr es r es'
    using that by (cases opr) (simp_all add: umap_emplace.inv_put)
  show "\<exists>c. cache_micro place (l, es') c"
    if "place_ok place" "cache_start opr = Inr l0" "distinct (map fst es)"
      "(cache_micro place)\<^sup>*\<^sup>* (l0, es) (l, es')" "cache_finished l = None" for opr l0 es l es'
  proof (cases l)
    case (Finding k)
    then show ?thesis by (cases "map_of es' k") (blast intro: cache_micro.found cache_micro.not_found)+
  next
    case (At_Entry k)
    then have "map_of es' k \<noteq> None"
      using in_scope_reach [OF that(4,2)] umap_emplace.lookup_put [OF that(1,3), of k]
      by (cases opr) (auto split: option.splits)
    then show ?thesis using At_Entry by (blast intro: cache_micro.read)
  qed (use that(5) in \<open>auto intro: cache_micro.intros\<close>)
qed

subsection \<open>Whole calls of \<open>ObtainConnectionTo\<close>\<close>

text \<open>
  A thread looks the node up, connects if it has to, and caches the connection, the two scopes being
  calls to the locked cache. Between the scopes it holds no lock.
\<close>

datatype 'c caller =
    At_Lookup snode_info
  | In_Lookup snode_info
  | At_Connect snode_info
  | At_Cache snode_info 'c
  | In_Cache snode_info 'c
  | At_End snode_info "'c option"
  | At_Throw snode_info

type_synonym 'c cache_machine =
  "('c cache_op, 'c cache_local, 'c option, (ed25519_pubkey \<times> 'c) list) machine"

inductive obtain_step ::
    "(ed25519_pubkey \<times> 'c) placement \<Rightarrow> 'c cache_machine \<times> (nat \<Rightarrow> 'c caller) \<Rightarrow>
     'c cache_machine \<times> (nat \<Rightarrow> 'c caller) \<Rightarrow> bool"
  for place :: "(ed25519_pubkey \<times> 'c) placement" where
  scope: "machine_step cache_start (cache_micro place) cache_finished m es m' \<Longrightarrow>
    \<forall>e \<in> set es. \<exists>i p r. e = Commit i p r \<Longrightarrow> obtain_step place (m, pc) (m', pc)"
| call_lookup: "pc i = At_Lookup n \<Longrightarrow>
    machine_step cache_start (cache_micro place) cache_finished m [Invoke i (Op_Find (identity n))] m' \<Longrightarrow>
    obtain_step place (m, pc) (m', pc(i := In_Lookup n))"
| return_lookup: "pc i = In_Lookup n \<Longrightarrow>
    machine_step cache_start (cache_micro place) cache_finished m [Return i p r] m' \<Longrightarrow>
    obtain_step place (m, pc)
      (m', pc(i := (case r of Some c \<Rightarrow> At_End n (Some c) | None \<Rightarrow> At_Connect n)))"
| connected: "pc i = At_Connect n \<Longrightarrow> obtain_step place (m, pc) (m, pc(i := At_Cache n c))"
| refused: "pc i = At_Connect n \<Longrightarrow> obtain_step place (m, pc) (m, pc(i := At_End n None))"
| threw: "pc i = At_Connect n \<Longrightarrow> obtain_step place (m, pc) (m, pc(i := At_Throw n))"
| call_cache: "pc i = At_Cache n c \<Longrightarrow>
    machine_step cache_start (cache_micro place) cache_finished m [Invoke i (Op_Emplace (identity n) c)] m' \<Longrightarrow>
    obtain_step place (m, pc) (m', pc(i := In_Cache n c))"
| return_cache: "pc i = In_Cache n c \<Longrightarrow>
    machine_step cache_start (cache_micro place) cache_finished m [Return i p r] m' \<Longrightarrow>
    obtain_step place (m, pc) (m', pc(i := At_End n r))"

text \<open>The phase of \<open>Transport\<close> a thread is in: a scope counts as done from its unlock on.\<close>

fun caller_phase :: "'c caller \<Rightarrow> ('c cache_op, 'c cache_local, 'c option) activity \<Rightarrow> 'c phase" where
  "caller_phase (In_Lookup n) (Leaving p r) =
     (case r of Some c \<Rightarrow> Done n (Some c) | None \<Rightarrow> Connecting n)"
| "caller_phase (In_Cache n c) (Leaving p r) = Done n r"
| "caller_phase (At_Lookup n) a = Looking n"
| "caller_phase (In_Lookup n) a = Looking n"
| "caller_phase (At_Connect n) a = Connecting n"
| "caller_phase (At_Cache n c) a = Emplacing n c"
| "caller_phase (In_Cache n c) a = Emplacing n c"
| "caller_phase (At_End n r) a = Done n r"
| "caller_phase (At_Throw n) a = Threw n"

fun op_of :: "('op, 'l, 'r) activity \<Rightarrow> 'op option" where
  "op_of Idle = None"
| "op_of (Waiting p) = Some p"
| "op_of (Inside p l) = Some p"
| "op_of (Leaving p r) = Some p"

fun caller_op :: "'c caller \<Rightarrow> 'c cache_op option" where
  "caller_op (In_Lookup n) = Some (Op_Find (identity n))"
| "caller_op (In_Cache n c) = Some (Op_Emplace (identity n) c)"
| "caller_op pc = None"

abbreviation phases :: "'c cache_machine \<Rightarrow> (nat \<Rightarrow> 'c caller) \<Rightarrow> nat \<Rightarrow> 'c phase" where
  "phases m pc \<equiv> \<lambda>i. caller_phase (pc i) (acts m i)"

text \<open>The unlock of a scope is a step of \<open>Transport\<close>; all else is none, or connecting.\<close>

lemma commit_is_step:
  assumes "cache_spec place p es r es'" and "caller_op c = Some p" and "ph i = caller_phase c (Inside p l)"
  shows "transport_step place (es, ph) (es', ph(i := caller_phase c (Leaving p r)))"
proof (cases c)
  case (In_Lookup n)
  then have n: "ph i = Looking n" "es' = es" "map_of es (identity n) = r"
    using assms by auto
  show ?thesis
  proof (cases r)
    case (Some c)
    then show ?thesis using transport_step.hit [of ph i n es c place] n In_Lookup by simp
  qed (use transport_step.miss [of ph i n es place] n In_Lookup in simp)
next
  case (In_Cache n k)
  then show ?thesis
    using assms transport_step.emplaced [of ph i n k es' place es] by auto
qed (use assms in simp_all)

definition refines :: "(ed25519_pubkey \<times> 'c) placement \<Rightarrow> (ed25519_pubkey \<times> 'c) list \<times> (nat \<Rightarrow> 'c phase) \<Rightarrow>
    'c cache_machine \<times> (nat \<Rightarrow> 'c caller) \<Rightarrow> bool" where
  "refines place a st \<longleftrightarrow> (case st of (m, pc) \<Rightarrow>
     (\<forall>i. op_of (acts m i) = caller_op (pc i)) \<and>
     (\<exists>es. cache.mid_section place m es \<and> (transport_step place)\<^sup>*\<^sup>* a (es, phases m pc)))"

lemma phases_upd:
  "acts m' = (acts m)(i := b) \<Longrightarrow> phases m' (pc(i := q)) = (phases m pc)(i := caller_phase q b)"
  by auto

lemma refines_op: "refines place a (m, pc) \<Longrightarrow> op_of (acts m i) = caller_op (pc i)"
  by (simp add: refines_def)

lemma refines_stutter:
  assumes "refines place a (m, pc)" and "machine_step cache_start (cache_micro place) cache_finished m es m'"
    and "commits es = []" and "acts m' = (acts m)(i := b)"
    and "op_of b = caller_op q" and "caller_phase q b = caller_phase (pc i) (acts m i)"
  shows "refines place a (m', pc(i := q))"
proof -
  obtain s where s: "cache.mid_section place m s" "(transport_step place)\<^sup>*\<^sup>* a (s, phases m pc)"
    using assms(1) by (auto simp: refines_def)
  have "phases m' (pc(i := q)) = phases m pc"
    using phases_upd [OF assms(4), of pc q] assms(6) by auto
  moreover have "cache.mid_section place m' s"
    using cache.mid_section_step [OF assms(2) s(1)] assms(3) by simp
  ultimately show ?thesis
    using assms(1,4,5) s(2) by (auto simp: refines_def)
qed

lemma refines_move:
  assumes "refines place a (m, pc)" and "caller_op (pc i) = None" and "caller_op q = None"
    and "\<And>es. transport_step place (es, phases m pc) (es, (phases m pc)(i := caller_phase q Idle))"
  shows "refines place a (m, pc(i := q))"
proof -
  have "op_of (acts m i) = None" using refines_op [OF assms(1)] assms(2) by simp
  then have idle: "acts m i = Idle" by (cases "acts m i") simp_all
  then have "phases m (pc(i := q)) = (phases m pc)(i := caller_phase q Idle)"
    by (intro phases_upd) (simp add: fun_upd_idem)
  then show ?thesis
    using assms idle by (auto simp: refines_def intro: rtranclp.rtrancl_into_rtrancl)
qed

lemma refines_scope:
  assumes "refines place a (m, pc)" and "machine_step cache_start (cache_micro place) cache_finished m es m'"
    and "\<forall>e \<in> set es. \<exists>i p r. e = Commit i p r"
  shows "refines place a (m', pc)"
  using assms(2)
proof (cases rule: machine_step.cases)
  case (release i p l r)
  obtain s where s: "cache.mid_section place m s" "(transport_step place)\<^sup>*\<^sup>* a (s, phases m pc)"
    using assms(1) by (auto simp: refines_def)
  obtain s' where s': "cache_spec place p s r s'" "cache.mid_section place m' s'"
    using cache.mid_section_step [OF assms(2) s(1)] release(1) by auto
  have op: "caller_op (pc i) = Some p"
    using refines_op [OF assms(1), of i] release(3) by simp
  have "transport_step place (s, phases m pc) (s', (phases m pc)(i := caller_phase (pc i) (Leaving p r)))"
    by (rule commit_is_step [OF s'(1) op, of _ i l]) (simp add: release(3))
  moreover have "phases m' pc = (phases m pc)(i := caller_phase (pc i) (Leaving p r))"
    using phases_upd [of m' m i "Leaving p r" pc "pc i"] release(2) by simp
  ultimately show ?thesis
    using assms(1) op s(2) s'(2) release(2) by (auto simp: refines_def intro: rtranclp.rtrancl_into_rtrancl)
next
  case (acquire i p l)
  have "caller_phase (pc i) (Inside p l) = caller_phase (pc i) (Waiting p)" by (cases "pc i") simp_all
  moreover have "caller_op (pc i) = Some p"
    using refines_op [OF assms(1), of i] acquire(3) by simp
  ultimately show ?thesis
    using refines_stutter [OF assms(1,2), of i "Inside p l" "pc i"] acquire(1-3) by simp
next
  case (statement i p l l' s')
  have "caller_phase (pc i) (Inside p l') = caller_phase (pc i) (Inside p l)" by (cases "pc i") simp_all
  moreover have "caller_op (pc i) = Some p"
    using refines_op [OF assms(1), of i] statement(3) by simp
  ultimately show ?thesis
    using refines_stutter [OF assms(1,2), of i "Inside p l'" "pc i"] statement(1-3) by simp
next
  case (lock_free i p r)
  then show ?thesis by (cases p) simp_all
qed (use assms(3) in auto)

lemma refines_step:
  assumes "obtain_step place (m, pc) (m', pc')" and "refines place a (m, pc)"
  shows "refines place a (m', pc')"
  using assms(1)
proof (cases rule: obtain_step.cases)
  case (scope es)
  then show ?thesis using refines_scope [OF assms(2)] by simp
next
  case (call_lookup i n)
  from call_lookup(3) have "acts m i = Idle" "acts m' = (acts m)(i := Waiting (Op_Find (identity n)))"
    by (cases rule: machine_step.cases; simp)+
  then show ?thesis
    using refines_stutter [OF assms(2) call_lookup(3), of i _ "In_Lookup n"] call_lookup(1,2) by simp
next
  case (return_lookup i n p r)
  from return_lookup(3) have "acts m i = Leaving p r" "acts m' = (acts m)(i := Idle)"
    by (cases rule: machine_step.cases; simp)+
  then show ?thesis
    using refines_stutter [OF assms(2) return_lookup(3), of i Idle "case r of Some c \<Rightarrow> At_End n (Some c) | None \<Rightarrow> At_Connect n"]
      return_lookup(1,2) by (cases r) simp_all
next
  case (connected i n c)
  then show ?thesis
    using refines_move [OF assms(2), of i "At_Cache n c"]
      transport_step.connected [of "phases m pc" i n place _ c] by simp
next
  case (refused i n)
  then show ?thesis
    using refines_move [OF assms(2), of i "At_End n None"]
      transport_step.refused [of "phases m pc" i n place] by simp
next
  case (threw i n)
  then show ?thesis
    using refines_move [OF assms(2), of i "At_Throw n"]
      transport_step.threw [of "phases m pc" i n place] by simp
next
  case (call_cache i n c)
  from call_cache(3) have "acts m i = Idle" "acts m' = (acts m)(i := Waiting (Op_Emplace (identity n) c))"
    by (cases rule: machine_step.cases; simp)+
  then show ?thesis
    using refines_stutter [OF assms(2) call_cache(3), of i _ "In_Cache n c"] call_cache(1,2) by simp
next
  case (return_cache i n c p r)
  from return_cache(3) have "acts m i = Leaving p r" "acts m' = (acts m)(i := Idle)"
    by (cases rule: machine_step.cases; simp)+
  then show ?thesis
    using refines_stutter [OF assms(2) return_cache(3), of i Idle "At_End n r"] return_cache(1,2) by simp
qed

lemma refines_run:
  "(obtain_step place)\<^sup>*\<^sup>* st st' \<Longrightarrow> refines place a st \<Longrightarrow> refines place a st'"
proof (induction rule: rtranclp_induct)
  case (step b c)
  then show ?case by (cases b; cases c) (auto intro: refines_step)
qed simp

text \<open>The steps a call has before it at most: 6 for the first scope, 1 to connect, 7 for the second.\<close>

fun caller_left :: "'c caller \<Rightarrow> ('c cache_op, 'c cache_local, 'c option) activity \<Rightarrow> nat" where
  "caller_left (At_Lookup n) a = 14"
| "caller_left (In_Lookup n) a = 8 + cache.ahead a"
| "caller_left (At_Connect n) a = 8"
| "caller_left (At_Cache n c) a = 7"
| "caller_left (In_Cache n c) a = cache.ahead a"
| "caller_left (At_End n r) a = 0"
| "caller_left (At_Throw n) a = 0"

abbreviation calls_left :: "'c cache_machine \<times> (nat \<Rightarrow> 'c caller) \<Rightarrow> nat \<Rightarrow> nat" where
  "calls_left st \<equiv> \<lambda>i. caller_left (snd st i) (acts (fst st) i)"

lemma one_call_left:
  assumes "acts m' = (acts m)(i := b)" and "caller_left q b < caller_left (pc i) (acts m i)"
  shows "\<exists>i. calls_left (m', pc(i := q)) i < calls_left (m, pc) i \<and>
    (\<forall>j. j \<noteq> i \<longrightarrow> calls_left (m', pc(i := q)) j = calls_left (m, pc) j)"
  using assms by (intro exI [of _ i]) auto

lemma obtain_left:
  assumes "obtain_step place (m, pc) (m', pc')" and "place_ok place"
    and "\<And>i. op_of (acts m i) = caller_op (pc i)"
  shows "\<exists>i. calls_left (m', pc') i < calls_left (m, pc) i \<and>
    (\<forall>j. j \<noteq> i \<longrightarrow> calls_left (m', pc') j = calls_left (m, pc) j)"
  using assms(1)
proof (cases rule: obtain_step.cases)
  case (scope es)
  have "cache.quiet place m m'" using scope(2,3) by (auto simp: quiet_step_def)
  then obtain i where i: "cache.ahead (acts m' i) < cache.ahead (acts m i)" "\<And>j. j \<noteq> i \<Longrightarrow> acts m' j = acts m j"
    using cache.quiet_ahead [OF _ assms(2)] by blast
  then have "op_of (acts m i) \<noteq> None" by (cases "acts m i") auto
  then have "caller_op (pc i) \<noteq> None" using assms(3) by simp
  then show ?thesis using i scope(1) by (intro exI [of _ i]) (cases "pc i"; auto)
next
  case (call_lookup i n)
  from call_lookup(3) have "acts m' = (acts m)(i := Waiting (Op_Find (identity n)))"
    by (cases rule: machine_step.cases; simp)
  then show ?thesis
    using one_call_left [of m' m i _ "In_Lookup n" pc] call_lookup(1,2) by simp
next
  case (return_lookup i n p r)
  from return_lookup(3) have "acts m i = Leaving p r" "acts m' = (acts m)(i := Idle)"
    by (cases rule: machine_step.cases; simp)+
  then show ?thesis
    using one_call_left [of m' m i Idle "case r of Some c \<Rightarrow> At_End n (Some c) | None \<Rightarrow> At_Connect n" pc]
      return_lookup(1,2) by (cases r) simp_all
next
  case (connected i n c)
  then show ?thesis using one_call_left [of m m i "acts m i" "At_Cache n c" pc] by simp
next
  case (refused i n)
  then show ?thesis using one_call_left [of m m i "acts m i" "At_End n None" pc] by simp
next
  case (threw i n)
  then show ?thesis using one_call_left [of m m i "acts m i" "At_Throw n" pc] by simp
next
  case (call_cache i n c)
  from call_cache(3) have "acts m' = (acts m)(i := Waiting (Op_Emplace (identity n) c))"
    by (cases rule: machine_step.cases; simp)
  then show ?thesis
    using one_call_left [of m' m i _ "In_Cache n c" pc] call_cache(1,2) by simp
next
  case (return_cache i n c p r)
  from return_cache(3) have "acts m i = Leaving p r" "acts m' = (acts m)(i := Idle)"
    by (cases rule: machine_step.cases; simp)+
  then show ?thesis
    using one_call_left [of m' m i Idle "At_End n r" pc] return_cache(1,2) by simp
qed

text \<open>
  Steps while the network is silent: the threads that are connecting stay where they are. A call
  that has not ended and is not connecting can go on without them, or the thread that holds the
  lock can.
\<close>

definition silent_step :: "(ed25519_pubkey \<times> 'c) placement \<Rightarrow> 'c cache_machine \<times> (nat \<Rightarrow> 'c caller) \<Rightarrow>
    'c cache_machine \<times> (nat \<Rightarrow> 'c caller) \<Rightarrow> bool" where
  "silent_step place st st' \<longleftrightarrow> obtain_step place st st' \<and>
     (\<forall>i n. snd st i = At_Connect n \<longrightarrow> snd st' i = At_Connect n)"

lemma silent_stepI:
  "obtain_step place (m, pc) (m', pc') \<Longrightarrow> (\<And>i n. pc i = At_Connect n \<Longrightarrow> pc' i = At_Connect n) \<Longrightarrow>
   \<exists>st. silent_step place (m, pc) st"
  unfolding silent_step_def by (intro exI [of _ "(m', pc')"]) simp

lemma silent_progress:
  assumes "place_ok place" and "cache.sound place m" and "\<And>i. op_of (acts m i) = caller_op (pc i)"
    and "\<And>n r. pc i \<noteq> At_End n r" and "\<And>n. pc i \<noteq> At_Throw n" and "\<And>n. pc i \<noteq> At_Connect n"
  shows "\<exists>st. silent_step place (m, pc) st"
proof (cases "caller_op (pc i)")
  case None
  then have "op_of (acts m i) = None" using assms(3) by simp
  then have idle: "acts m i = Idle" by (cases "acts m i") simp_all
  note call = machine_step.invoke [OF idle, of cache_start "cache_micro place" cache_finished]
  show ?thesis
  proof (cases "pc i")
    case (At_Lookup n)
    show ?thesis
      by (rule silent_stepI [OF obtain_step.call_lookup
          [where pc = pc and i = i and n = n, OF At_Lookup call]]) (use At_Lookup in auto)
  next
    case (At_Cache n c)
    show ?thesis
      by (rule silent_stepI [OF obtain_step.call_cache
          [where pc = pc and i = i and n = n and c = c, OF At_Cache call]]) (use At_Cache in auto)
  qed (use None assms(4-6) in simp_all)
next
  case (Some p)
  then have "op_of (acts m i) = Some p" using assms(3) by simp
  then have "acts m i \<noteq> Idle" by auto
  then obtain m' es where step: "machine_step cache_start (cache_micro place) cache_finished m es m'"
      and quiet: "\<forall>i p. Invoke i p \<notin> set es"
    using cache.quiet_progress [OF assms(1,2)] unfolding quiet_step_def by blast
  show ?thesis
  proof (cases "\<exists>j q r. es = [Return j q r]")
    case True
    then obtain j q r where es: "es = [Return j q r]" by blast
    from step [unfolded es] have "acts m j = Leaving q r" by (cases rule: machine_step.cases) simp_all
    then have "caller_op (pc j) = Some q" using assms(3) [of j] by simp
    note ret = step [unfolded es]
    show ?thesis
    proof (cases "pc j")
      case (In_Lookup n)
      show ?thesis
        by (rule silent_stepI [OF obtain_step.return_lookup
            [where pc = pc and i = j and n = n, OF In_Lookup ret]]) (use In_Lookup in auto)
    next
      case (In_Cache n c)
      show ?thesis
        by (rule silent_stepI [OF obtain_step.return_cache
            [where pc = pc and i = j and n = n and c = c, OF In_Cache ret]]) (use In_Cache in auto)
    qed (use \<open>caller_op (pc j) = Some q\<close> in simp_all)
  next
    case False
    from step have "\<forall>e \<in> set es. \<exists>i p r. e = Commit i p r"
      by (cases rule: machine_step.cases) (use False quiet in auto)
    from obtain_step.scope [OF step this] show ?thesis by (rule silent_stepI)
  qed
qed

lemma obtain_progress:
  assumes "place_ok place" and "cache.sound place m" and "\<And>i. op_of (acts m i) = caller_op (pc i)"
    and "\<And>n r. pc i \<noteq> At_End n r" and "\<And>n. pc i \<noteq> At_Throw n"
  shows "\<exists>st. obtain_step place (m, pc) st"
proof (cases "\<exists>n. pc i = At_Connect n")
  case True
  then show ?thesis using obtain_step.refused [of pc i _ place m] by blast
next
  case False
  then show ?thesis using silent_progress [OF assms] unfolding silent_step_def by blast
qed

lemma obtain_sound:
  assumes "obtain_step place (m, pc) (m', pc')" and "place_ok place" and "cache.sound place m"
  shows "cache.sound place m'"
  using assms(1) by (cases rule: obtain_step.cases) (auto intro: cache.sound_step [OF _ assms(2,3)] assms(3))

text \<open>What every run of n threads keeps, and how long it can be.\<close>

definition n_callers :: "nat \<Rightarrow> (nat \<Rightarrow> 'c caller) \<Rightarrow> bool" where
  "n_callers n pc \<longleftrightarrow> (\<forall>i. \<exists>m. pc i = (if i < n then At_Lookup m else At_End m None))"

lemma obtain_runs:
  assumes "(obtain_step place ^^ k) (new_machine es, pc) (m', pc')" and "place_ok place"
    and "distinct (map fst es)" and "n_callers n pc"
  shows "k \<le> 14 * n" and "cache.sound place m'" and "op_of (acts m' i) = caller_op (pc' i)"
proof -
  let ?P = "\<lambda>st. refines place (es, \<lambda>i. caller_phase (pc i) Idle) st \<and> cache.sound place (fst st)"
  have callers: "\<exists>m. pc i = (if i < n then At_Lookup m else At_End m None)" for i
    using assms(4) by (simp add: n_callers_def)
  have "caller_op (pc i) = None" for i using callers [of i] by auto
  then have start: "?P (new_machine es, pc)"
    using cache.mid_section_new [of place es] cache.sound_new [OF assms(3), of place]
    by (auto simp: refines_def new_machine_def)
  have step: "?P y \<and> (\<exists>i. calls_left y i < calls_left x i \<and> (\<forall>j. j \<noteq> i \<longrightarrow> calls_left y j = calls_left x j))"
    if "obtain_step place x y" "?P x" for x y
  proof -
    obtain m pc1 m1 pc2 where xy: "x = (m, pc1)" "y = (m1, pc2)" by (cases x; cases y)
    note st = that [unfolded xy fst_conv]
    have ref: "refines place (es, \<lambda>i. caller_phase (pc i) Idle) (m, pc1)" using st(2) by (rule conjunct1)
    from refines_step [OF st(1) ref] obtain_sound [OF st(1) assms(2)] st(2)
      obtain_left [OF st(1) assms(2) refines_op [OF ref]]
    show ?thesis unfolding xy fst_conv by blast
  qed
  have "calls_left (new_machine es, pc) j = 0" if "j \<notin> {..<n}" for j
    using callers [of j] that by auto
  from bounded_steps [where R = "obtain_step place" and P = ?P and f = calls_left,
      OF step assms(1) start finite_lessThan this]
  have inv: "?P (m', pc')"
    and le: "k + (\<Sum>j < n. calls_left (m', pc') j) \<le> (\<Sum>j < n. calls_left (new_machine es, pc) j)"
    by blast+
  have "calls_left (new_machine es, pc) j \<le> 14" for j
    using callers [of j] by (auto split: if_splits)
  then have "(\<Sum>j < n. calls_left (new_machine es, pc) j) \<le> (\<Sum>j < n. 14)"
    by (rule sum_mono)
  also have "(\<Sum>j < n. 14) = 14 * n" by simp
  finally show "k \<le> 14 * n" using le by linarith
  show "cache.sound place m'" using inv by simp
  show "op_of (acts m' i) = caller_op (pc' i)" using inv refines_op by blast
qed

lemma silent_run: "(silent_step place ^^ k) st st' \<Longrightarrow> (obtain_step place ^^ k) st st'"
proof (induction k arbitrary: st')
  case (Suc k)
  then obtain st1 where "(silent_step place ^^ k) st st1" "silent_step place st1 st'" by auto
  then have "(obtain_step place ^^ k) st st1" "obtain_step place st1 st'"
    using Suc.IH unfolding silent_step_def by blast+
  then show ?case by auto
qed simp

lemma silent_stays:
  "(silent_step place ^^ k) st st' \<Longrightarrow> snd st i = At_Connect n \<Longrightarrow> snd st' i = At_Connect n"
proof (induction k arbitrary: st')
  case (Suc k)
  then obtain st1 where "(silent_step place ^^ k) st st1" "silent_step place st1 st'" by auto
  then have "snd st1 i = At_Connect n" using Suc.IH Suc.prems(2) by blast
  with \<open>silent_step place st1 st'\<close> show ?case unfolding silent_step_def by blast
qed simp

subsection \<open>Properties\<close>

text \<open>
  C15. The mutex makes the phases of \<open>Transport\<close> what they are: threads that run \<open>ObtainConnectionTo\<close>
  statement by statement, the cache being in any state while one of them is changing it, behave
  like the abstract threads of \<open>transport_step\<close>, whose answers and final cache they have.
\<close>

theorem transport_threads_refine:
  assumes "(obtain_step place)\<^sup>*\<^sup>* (new_machine es, pc) (m', pc')" and "\<And>i. \<exists>n. pc i = At_Lookup n"
  shows "\<exists>es' ph'. (transport_step place)\<^sup>*\<^sup>* (es, \<lambda>i. caller_phase (pc i) Idle) (es', ph') \<and>
    (\<forall>i n r. pc' i = At_End n r \<longrightarrow> ph' i = Done n r) \<and> (\<forall>i n. pc' i = At_Throw n \<longrightarrow> ph' i = Threw n) \<and> (owner m' = None \<longrightarrow> shared m' = es')"
proof -
  have "caller_op (pc i) = None" for i using assms(2) [of i] by auto
  then have "refines place (es, \<lambda>i. caller_phase (pc i) Idle) (new_machine es, pc)"
    using cache.mid_section_new [of place es] by (auto simp: refines_def new_machine_def)
  then have "refines place (es, \<lambda>i. caller_phase (pc i) Idle) (m', pc')"
    by (rule refines_run [OF assms(1)])
  then obtain es' where es': "cache.mid_section place m' es'"
      "(transport_step place)\<^sup>*\<^sup>* (es, \<lambda>i. caller_phase (pc i) Idle) (es', phases m' pc')"
    by (auto simp: refines_def)
  then show ?thesis
    by (intro exI [of _ es'] exI [of _ "phases m' pc'"]) (simp add: cache.mid_section_def split: option.splits)
qed

theorem transport_threads_refine_witness:
  "\<exists>m' pc'. (obtain_step place_front)\<^sup>*\<^sup>* (new_machine [(identity ref_node, 7 :: nat)], \<lambda>i. At_Lookup ref_node) (m', pc') \<and>
    pc' 0 = At_End ref_node (Some 7) \<and>
    (\<exists>es' ph'. (transport_step place_front)\<^sup>*\<^sup>* ([(identity ref_node, 7)], \<lambda>i. Looking ref_node) (es', ph') \<and>
      ph' 0 = Done ref_node (Some 7) \<and> shared m' = es')"
proof -
  let ?es = "[(identity ref_node, 7 :: nat)]" and ?find = "Op_Find (identity ref_node)"
  let ?pc0 = "(\<lambda>i. At_Lookup ref_node)" let ?pc1 = "?pc0(0 := In_Lookup ref_node)"
  let ?m = "\<lambda>k a. \<lparr>owner = k, shared = ?es, acts = (\<lambda>i. Idle)(0 := a)\<rparr> :: nat cache_machine"
  let ?st = "obtain_step place_front" and ?step = "machine_step cache_start (cache_micro place_front) cache_finished"
  have "?step (?m None Idle) [Invoke 0 ?find] (?m None (Waiting ?find))"
    using written_step(1) [of "(\<lambda>i. Idle)(0 := Idle)" 0] by fastforce
  then have 1: "?st (?m None Idle, ?pc0) (?m None (Waiting ?find), ?pc1)"
    by (intro obtain_step.call_lookup) simp_all
  have inner: "?st (m, ?pc1) (m', ?pc1)" if "?step m es m'" "\<forall>e \<in> set es. \<exists>i p r. e = Commit i p r" for m m' es
    using that by (rule obtain_step.scope)
  have 2: "?st (?m None (Waiting ?find), ?pc1) (?m (Some 0) (Inside ?find (Finding (identity ref_node))), ?pc1)"
    using inner [OF written_step(2) [of "(\<lambda>i. Idle)(0 := Waiting ?find)" 0 ?find]] by fastforce
  have found: "cache_micro place_front (Finding (identity ref_node), ?es) (At_Entry (identity ref_node), ?es)"
    by (rule cache_micro.found) simp
  have read: "cache_micro place_front (At_Entry (identity ref_node), ?es) (Scope_Result (Some 7), ?es)"
    by (rule cache_micro.read) simp
  have 3: "?st (?m (Some 0) (Inside ?find (Finding (identity ref_node))), ?pc1)
      (?m (Some 0) (Inside ?find (At_Entry (identity ref_node))), ?pc1)"
    using inner [OF written_step(3) [of "(\<lambda>i. Idle)(0 := Inside ?find (Finding (identity ref_node)))" 0 ?find _
        "cache_micro place_front", OF _ found]] by fastforce
  have 4: "?st (?m (Some 0) (Inside ?find (At_Entry (identity ref_node))), ?pc1)
      (?m (Some 0) (Inside ?find (Scope_Result (Some 7))), ?pc1)"
    using inner [OF written_step(3) [of "(\<lambda>i. Idle)(0 := Inside ?find (At_Entry (identity ref_node)))" 0 ?find _
        "cache_micro place_front", OF _ read]] by fastforce
  have 5: "?st (?m (Some 0) (Inside ?find (Scope_Result (Some 7))), ?pc1)
      (?m None (Leaving ?find (Some 7)), ?pc1)"
    using inner [OF written_step(4) [of "(\<lambda>i. Idle)(0 := Inside ?find (Scope_Result (Some 7)))" 0 ?find]] by fastforce
  have "?step (?m None (Leaving ?find (Some 7))) [Return 0 ?find (Some 7)] (?m None Idle)"
    using written_step(5) [of "(\<lambda>i. Idle)(0 := Leaving ?find (Some 7))" 0 ?find] by fastforce
  from obtain_step.return_lookup [OF _ this, of ?pc1 ref_node]
  have 6: "?st (?m None (Leaving ?find (Some 7)), ?pc1) (?m None Idle, ?pc0(0 := At_End ref_node (Some 7)))"
    by simp
  have "?st\<^sup>*\<^sup>* (?m None Idle, ?pc0) (?m None Idle, ?pc0(0 := At_End ref_node (Some 7)))"
    using 1 2 3 4 5 6 by (meson converse_rtranclp_into_rtranclp r_into_rtranclp)
  moreover have "new_machine ?es = ?m None Idle" by (auto simp: new_machine_def)
  ultimately have run: "?st\<^sup>*\<^sup>* (new_machine ?es, ?pc0) (?m None Idle, ?pc0(0 := At_End ref_node (Some 7)))"
    by (simp only:)
  from transport_threads_refine [OF run] obtain es' ph' where
      "(transport_step place_front)\<^sup>*\<^sup>* (?es, \<lambda>i. Looking ref_node) (es', ph')"
      "ph' 0 = Done ref_node (Some 7)" "?es = es'"
    by auto
  with run show ?thesis
    by (intro exI [of _ "?m None Idle"] exI [of _ "?pc0(0 := At_End ref_node (Some 7))"]) auto
qed

text \<open>
  C17. Obtaining connections ends, the lock included: n threads take at most 14 n statements together,
  whatever the schedule, the network and the cache, and when none of them can take another, each
  has returned or thrown.
\<close>

theorem transport_calls_return:
  assumes "(obtain_step place ^^ k) (new_machine es, pc) (m', pc')" and "place_ok place"
    and "distinct (map fst es)" and "\<And>i. \<exists>m. pc i = (if i < n then At_Lookup m else At_End m None)"
  shows "k \<le> 14 * n \<and> ((\<nexists>st. obtain_step place (m', pc') st) \<longrightarrow>
    (\<forall>i. \<exists>m. pc' i = At_Throw m \<or> (\<exists>r. pc' i = At_End m r)))"
proof -
  have "n_callers n pc" using assms(4) by (simp add: n_callers_def)
  note run = obtain_runs [OF assms(1-3) this]
  have "\<exists>m. pc' i = At_Throw m \<or> (\<exists>r. pc' i = At_End m r)"
    if "\<nexists>st. obtain_step place (m', pc') st" for i
    using that obtain_progress [OF assms(2) run(2,3), of i] by blast
  then show ?thesis using run(1) by blast
qed

theorem transport_calls_return_witness:
  "\<exists>m' pc'. (obtain_step place_front ^^ 1)
      (new_machine [(identity ref_node, 7 :: nat)], \<lambda>i. if i < 1 then At_Lookup ref_node else At_End ref_node None)
      (m', pc') \<and> pc' 0 = In_Lookup ref_node \<and> (\<exists>st. obtain_step place_front (m', pc') st)"
proof -
  let ?es = "[(identity ref_node, 7 :: nat)]" and ?find = "Op_Find (identity ref_node)"
  let ?pc = "\<lambda>i. if i < 1 then At_Lookup ref_node else At_End ref_node None"
  obtain m' where "machine_step cache_start (cache_micro place_front) cache_finished (new_machine ?es)
      [Invoke 0 ?find] m'"
    using machine_step.invoke [of "new_machine ?es" 0 cache_start "cache_micro place_front" cache_finished]
    by (auto simp: new_machine_def)
  from obtain_step.call_lookup [OF _ this, of ?pc]
  have "obtain_step place_front (new_machine ?es, ?pc) (m', ?pc(0 := In_Lookup ref_node))" by simp
  then have run: "(obtain_step place_front ^^ 1) (new_machine ?es, ?pc) (m', ?pc(0 := In_Lookup ref_node))"
    unfolding relpowp_1 .
  have "\<exists>m. ?pc i = (if i < 1 then At_Lookup m else At_End m None)" for i by auto
  from transport_calls_return [OF run place_ok_examples(1) _ this]
  have "\<exists>st. obtain_step place_front (m', ?pc(0 := In_Lookup ref_node)) st"
    by (auto dest: spec [of _ 0])
  with run show ?thesis by (intro exI [of _ m'] exI [of _ "?pc(0 := In_Lookup ref_node)"]) simp
qed

text \<open>
  C18. The lock is not held while a connection is being made: at any moment of such a run, should the
  network answer none of the threads that are connecting, then the others go on as if these were
  not there. They take at most 14 n steps, and when no more can be taken the lock is free and each
  thread has returned, has thrown, or is waiting for the network itself.
\<close>

theorem connecting_blocks_nobody:
  assumes "(obtain_step place ^^ j) (new_machine es, pc) st" and "(silent_step place ^^ k) st (m', pc')"
    and "place_ok place" and "distinct (map fst es)"
    and "\<And>i. \<exists>m. pc i = (if i < n then At_Lookup m else At_End m None)"
  shows "j + k \<le> 14 * n \<and> (\<forall>i m. snd st i = At_Connect m \<longrightarrow> pc' i = At_Connect m) \<and>
    ((\<nexists>st'. silent_step place (m', pc') st') \<longrightarrow> owner m' = None \<and>
     (\<forall>i. \<exists>m. pc' i = At_Connect m \<or> pc' i = At_Throw m \<or> (\<exists>r. pc' i = At_End m r)))"
proof -
  have "(obtain_step place ^^ (j + k)) (new_machine es, pc) (m', pc')"
    using assms(1) silent_run [OF assms(2)] by (auto simp: relpowp_add)
  note run = obtain_runs [OF this assms(3,4)]
  have callers: "n_callers n pc" using assms(5) by (simp add: n_callers_def)
  have stay: "snd st i = At_Connect m \<longrightarrow> pc' i = At_Connect m" for i m
    using silent_stays [OF assms(2), of i m] by simp
  have over: "\<exists>m. pc' i = At_Connect m \<or> pc' i = At_Throw m \<or> (\<exists>r. pc' i = At_End m r)"
    if "\<nexists>st'. silent_step place (m', pc') st'" for i
    using that silent_progress [OF assms(3) run(2,3) [OF callers], of i] by blast
  have "owner m' = None" if "\<nexists>st'. silent_step place (m', pc') st'"
  proof (rule ccontr)
    assume "owner m' \<noteq> None"
    then obtain i p l where "acts m' i = Inside p l" using cache.owner_inside [OF run(2) [OF callers]] by blast
    then have "caller_op (pc' i) = Some p" using run(3) [OF callers, of i] by simp
    with over [OF that, of i] show False by auto
  qed
  with over stay run(1) [OF callers] show ?thesis by blast
qed

text \<open>
  Two threads and an empty cache: the first has not found its node and is connecting; the second
  has called after it, and can go on without it.
\<close>

theorem connecting_blocks_nobody_witness:
  "\<exists>(m :: nat cache_machine) pc'. (obtain_step place_front ^^ 6) (new_machine [], \<lambda>i. if i < 2 then At_Lookup ref_node
      else At_End ref_node None) (m, pc') \<and> pc' 0 = At_Connect ref_node \<and> pc' 1 = In_Lookup ref_node \<and>
    (\<exists>st. silent_step place_front (m, pc') st)"
proof -
  let ?find = "Op_Find (identity ref_node) :: nat cache_op"
  let ?pc0 = "\<lambda>i. if i < 2 then At_Lookup ref_node else At_End ref_node None"
  let ?pc1 = "?pc0(0 := In_Lookup ref_node)" let ?pc2 = "?pc0(0 := At_Connect ref_node)"
  let ?m = "\<lambda>k a. \<lparr>owner = k, shared = [], acts = (\<lambda>i. Idle)(0 := a)\<rparr> :: nat cache_machine"
  let ?st = "obtain_step place_front" and ?step = "machine_step cache_start (cache_micro place_front) cache_finished"
  have "?step (?m None Idle) [Invoke 0 ?find] (?m None (Waiting ?find))"
    using written_step(1) [of "(\<lambda>i. Idle)(0 := Idle)" 0] by fastforce
  then have 1: "?st (?m None Idle, ?pc0) (?m None (Waiting ?find), ?pc1)"
    by (intro obtain_step.call_lookup) simp_all
  have inner: "?st (m, ?pc1) (m', ?pc1)" if "?step m es m'" "\<forall>e \<in> set es. \<exists>i p r. e = Commit i p r" for m m' es
    using that by (rule obtain_step.scope)
  have 2: "?st (?m None (Waiting ?find), ?pc1) (?m (Some 0) (Inside ?find (Finding (identity ref_node))), ?pc1)"
    using inner [OF written_step(2) [of "(\<lambda>i. Idle)(0 := Waiting ?find)" 0 ?find]] by fastforce
  have missed: "cache_micro place_front (Finding (identity ref_node), []) (Scope_Result None :: nat cache_local, [])"
    by (rule cache_micro.not_found) simp
  have 3: "?st (?m (Some 0) (Inside ?find (Finding (identity ref_node))), ?pc1)
      (?m (Some 0) (Inside ?find (Scope_Result None)), ?pc1)"
    using inner [OF written_step(3) [of "(\<lambda>i. Idle)(0 := Inside ?find (Finding (identity ref_node)))" 0 ?find _
        "cache_micro place_front", OF _ missed]] by fastforce
  have 4: "?st (?m (Some 0) (Inside ?find (Scope_Result None)), ?pc1) (?m None (Leaving ?find None), ?pc1)"
    using inner [OF written_step(4) [of "(\<lambda>i. Idle)(0 := Inside ?find (Scope_Result None))" 0 ?find]] by fastforce
  have "?step (?m None (Leaving ?find None)) [Return 0 ?find None] (?m None Idle)"
    using written_step(5) [of "(\<lambda>i. Idle)(0 := Leaving ?find None)" 0 ?find] by fastforce
  from obtain_step.return_lookup [OF _ this, of ?pc1 ref_node]
  have 5: "?st (?m None (Leaving ?find None), ?pc1) (?m None Idle, ?pc2)" by simp
  obtain m where "?step (?m None Idle) [Invoke 1 ?find] m"
    using machine_step.invoke [of "?m None Idle" 1 cache_start "cache_micro place_front" cache_finished] by auto
  from obtain_step.call_lookup [OF _ this, of ?pc2]
  have 6: "?st (?m None Idle, ?pc2) (m, ?pc2(1 := In_Lookup ref_node))" by simp
  note go = relpowp_Suc_I2 [where P = "?st"]
  have new: "new_machine [] = ?m None Idle" by (auto simp: new_machine_def)
  have "(?st ^^ Suc (Suc (Suc (Suc (Suc (Suc 0)))))) (new_machine [], ?pc0) (m, ?pc2(1 := In_Lookup ref_node))"
    unfolding new
    by (intro go [OF 1] go [OF 2] go [OF 3] go [OF 4] go [OF 5] go [OF 6]) (rule relpowp_0_I)
  then have run: "(?st ^^ 6) (new_machine [], ?pc0) (m, ?pc2(1 := In_Lookup ref_node))"
    by (simp only: eval_nat_numeral BitM.simps pred_numeral_simps)
  have "\<exists>m. ?pc0 i = (if i < 2 then At_Lookup m else At_End m None)" for i by auto
  from connecting_blocks_nobody [OF run relpowp_0_I place_ok_examples(1) _ this]
  have "\<exists>st. silent_step place_front (m, ?pc2(1 := In_Lookup ref_node)) st"
    by (auto dest: spec [of _ 1])
  with run show ?thesis by (intro exI [of _ m] exI [of _ "?pc2(1 := In_Lookup ref_node)"]) simp
qed

end
