(* ===== verification/Node_Fetcher.thy ===== *)
theory Node_Fetcher
  imports Path_Selection Messaging
begin

text \<open>
  The node list fetcher and the factories of onionreq/consensus.hpp and consensus.cpp
  (\<open>OxenMQ_NodeFetcher_JSON\<close>, \<open>Consensus_Base\<close>, \<open>Consensus_Direct\<close>).
\<close>

subsection \<open>The node list\<close>

text \<open>
  The loop of \<open>ParseNodeList\<close>; \<open>mem i\<close> is the indeterminate \<open>SNodeInfo\<close> of the i-th iteration.
\<close>

fun parse_entries ::
    "oxenc \<Rightarrow> 'j json_lib \<Rightarrow> (ed25519_pubkey \<times> snode_info) placement \<Rightarrow> (nat \<Rightarrow> snode_info) \<Rightarrow> nat \<Rightarrow>
     (ed25519_pubkey \<times> snode_info) list \<Rightarrow> 'j list \<Rightarrow> (ed25519_pubkey \<times> snode_info) list result" where
  "parse_entries X J place mem i list [] = Inr list"
| "parse_entries X J place mem i list (entry # entries) =
     ebind (snode_info_of_json X J (mem i) entry) (\<lambda>info.
     parse_entries X J place mem (Suc i) (umap_assign place list (identity info) info) entries)"

definition ParseNodeList ::
    "oxenc \<Rightarrow> 'j json_lib \<Rightarrow> (ed25519_pubkey \<times> snode_info) placement \<Rightarrow> (nat \<Rightarrow> snode_info) \<Rightarrow>
     bytes \<Rightarrow> (ed25519_pubkey \<times> snode_info) list result" where
  "ParseNodeList X J place mem data =
     ebind (or_throw (js_parse J data) Json_Error) (\<lambda>val.
     case js_find J val (str ''service_node_states'') of
       None \<Rightarrow> Inr []
     | Some states \<Rightarrow> parse_entries X J place mem 0 [] (js_elements J states))"

definition RPCMethod :: bytes where
  "RPCMethod = str ''rpc.get_service_nodes''"

definition RPCBody :: "'j json_lib \<Rightarrow> bytes result" where
  "RPCBody J = or_throw (js_dump J (js_object J
     [(str ''fields'', js_object J
        [(str ''pubkey_ed25519'', js_bool J True),
         (str ''pubkey_x25519'', js_bool J True),
         (str ''public_ip'', js_bool J True),
         (str ''storage_port'', js_bool J True),
         (str ''storage_lmq_port'', js_bool J True)])])) Json_Error"

subsection \<open>The fetcher\<close>

record 'c fetcher =
  seeds :: "bytes list"
  conn :: "'c option"

definition ObtainConnection ::
    "('a, 'c, 'w) oxenmq \<Rightarrow> 'g draw \<Rightarrow> 'c fetcher \<Rightarrow> 'w \<Rightarrow> 'g \<Rightarrow>
     'c option result \<times> 'c fetcher \<times> 'w \<times> 'g" where
  "ObtainConnection M draw f w g =
     (case conn f of
        Some c \<Rightarrow> (Inr (Some c), f, w, g)
      | None \<Rightarrow>
          (case pick_random_from draw (parse_address M) (seeds f) g of
             (Inl e, g) \<Rightarrow> (Inl e, f, w, g)
           | (Inr a, g) \<Rightarrow>
               (case mq_connect M a w of
                  (c, w) \<Rightarrow> (Inr c, f\<lparr>conn := c\<rparr>, w, g))))"

text \<open>The reply callback of \<open>FetchAll\<close>: what it hands to the caller's callback.\<close>

definition fetch_reply ::
    "oxenc \<Rightarrow> 'j json_lib \<Rightarrow> (ed25519_pubkey \<times> snode_info) placement \<Rightarrow> (nat \<Rightarrow> snode_info) \<Rightarrow>
     bool \<Rightarrow> bytes list \<Rightarrow> (ed25519_pubkey \<times> snode_info) list result" where
  "fetch_reply X J place mem success msgs =
     (if success \<and> 1 < length msgs
      then ebind (catch_all (ParseNodeList X J place mem (msgs ! 1))) (\<lambda>nodes.
           Inr (case nodes of None \<Rightarrow> [] | Some nodes \<Rightarrow> nodes))
      else Inr [])"

definition FetchAll ::
    "oxenc \<Rightarrow> 'j json_lib \<Rightarrow> ('a, 'c, 'w) oxenmq \<Rightarrow> (ed25519_pubkey \<times> snode_info) placement \<Rightarrow>
     (nat \<Rightarrow> snode_info) \<Rightarrow> 'g draw \<Rightarrow> 'c fetcher \<Rightarrow> 'w \<Rightarrow> 'g \<Rightarrow>
     ('c, (ed25519_pubkey \<times> snode_info) list) mq_call result \<times> 'c fetcher \<times> 'w \<times> 'g" where
  "FetchAll X J M place mem draw f w g =
     (case ObtainConnection M draw f w g of
        (maybe, f, w, g) \<Rightarrow>
          (ebind maybe (\<lambda>maybe.
             case maybe of
               Some c \<Rightarrow> ebind (RPCBody J) (\<lambda>body.
                 Inr (Requested c RPCMethod body (fetch_reply X J place mem)))
             | None \<Rightarrow> Inr (Called [])), f, w, g))"

definition Fetch :: "ed25519_pubkey \<Rightarrow> ('c, snode_info option) mq_call" where
  "Fetch ident = Called None"

subsection \<open>The factories\<close>

record consensus =
  consensus_seeds :: "bytes list"

definition Consensus_direct_oxenmq :: "consensus option" where
  "Consensus_direct_oxenmq = Some \<lparr>consensus_seeds = []\<rparr>"

definition Consensus_lokinet_oxenmq :: "consensus option" where
  "Consensus_lokinet_oxenmq = None"

definition SeedNodes :: "bytes list \<Rightarrow> consensus \<Rightarrow> consensus" where
  "SeedNodes s c = c\<lparr>consensus_seeds := s\<rparr>"

definition CreateNodeFetcher :: "consensus \<Rightarrow> 'c fetcher" where
  "CreateNodeFetcher c = \<lparr>seeds = consensus_seeds c, conn = None\<rparr>"

definition CreatePathSelector :: "consensus \<Rightarrow> path_selection" where
  "CreatePathSelector c = new_PathSelection"

subsection \<open>Lemmas\<close>

text \<open>The loop is a sequence of assignments, one per entry, of the entry's node to its identity.\<close>

lemma parse_entries_put_all:
  "parse_entries X J place mem i list entries = Inr nodes \<Longrightarrow>
   \<exists>infos. length infos = length entries \<and>
     (\<forall>n < length entries. snode_info_of_json X J (mem (i + n)) (entries ! n) = Inr (infos ! n)) \<and>
     nodes = umap_assign.put_all place list (map (\<lambda>info. (identity info, info)) infos)"
proof (induction entries arbitrary: i list)
  case (Cons entry entries)
  then obtain info where info: "snode_info_of_json X J (mem i) entry = Inr info"
      "parse_entries X J place mem (Suc i) (umap_assign place list (identity info) info) entries = Inr nodes"
    by (auto simp: ebind_eq_Inr)
  with Cons.IH [OF info(2)] obtain infos where
      "length infos = length entries"
      "\<forall>n < length entries. snode_info_of_json X J (mem (Suc i + n)) (entries ! n) = Inr (infos ! n)"
      "nodes = umap_assign.put_all place (umap_assign place list (identity info) info)
        (map (\<lambda>info. (identity info, info)) infos)"
    by blast
  with info(1) show ?case
    by (intro exI [of _ "info # infos"]) (auto simp: nth_Cons less_Suc_eq_0_disj split: nat.splits)
qed simp

lemma keyed_by_identity:
  assumes "place_ok place" and "distinct (map fst list)" and "\<forall>(k, n) \<in> set list. identity n = k"
    and "nodes = umap_assign.put_all place list (map (\<lambda>info. (identity info, info)) infos)"
  shows "distinct (map fst nodes)" and "\<forall>(k, n) \<in> set nodes. identity n = k"
proof -
  show dist: "distinct (map fst nodes)"
    using umap_assign.inv_put_all [OF assms(1,2)] assms(4) by simp
  show "\<forall>(k, n) \<in> set nodes. identity n = k"
  proof clarify
    fix k n assume "(k, n) \<in> set nodes"
    then have "map_of nodes k = Some n" using dist by simp
    then have "map_of (rev (map (\<lambda>info. (identity info, info)) infos)) k = Some n \<or> map_of list k = Some n"
      unfolding assms(4) by (simp add: umap_assign.last_wins [OF assms(1,2)] split: option.splits)
    then show "identity n = k"
      using assms(3) by (auto dest!: map_of_SomeD)
  qed
qed

lemma ParseNodeList_cases:
  assumes "ParseNodeList X J place mem data = Inr nodes"
  obtains infos where "nodes = umap_assign.put_all place [] (map (\<lambda>info. (identity info, info)) infos)"
proof (cases "js_parse J data")
  case (Some val)
  show ?thesis
  proof (cases "js_find J val (str ''service_node_states'')")
    case None
    then show ?thesis using assms Some that [of "[]"] by (simp add: ParseNodeList_def)
  next
    case (Some states)
    then show ?thesis
      using assms \<open>js_parse J data = Some val\<close> that parse_entries_put_all
      by (force simp: ParseNodeList_def)
  qed
qed (use assms in \<open>simp add: ParseNodeList_def\<close>)

lemma ParseNodeList_keyed:
  assumes "ParseNodeList X J place mem data = Inr nodes" and "place_ok place"
  shows "distinct (map fst nodes)" and "\<forall>(k, n) \<in> set nodes. identity n = k"
    and "distinct (map (identity \<circ> snd) nodes)"
proof -
  obtain infos where nodes: "nodes = umap_assign.put_all place [] (map (\<lambda>info. (identity info, info)) infos)"
    using assms(1) by (rule ParseNodeList_cases)
  show a: "distinct (map fst nodes)"
    by (rule keyed_by_identity(1) [OF assms(2) _ _ nodes]) simp_all
  show b: "\<forall>(k, n) \<in> set nodes. identity n = k"
    by (rule keyed_by_identity(2) [OF assms(2) _ _ nodes]) simp_all
  have "map (identity \<circ> snd) nodes = map fst nodes"
    by (rule map_cong [OF refl]) (use b in \<open>simp add: case_prod_beta\<close>)
  with a show "distinct (map (identity \<circ> snd) nodes)" by (simp only:)
qed

lemma ParseNodeList_wt:
  assumes "ParseNodeList X J place mem data = Inr nodes" and "place_ok place" and "\<And>i. wt_snode (mem i)"
  shows "\<forall>(k, n) \<in> set nodes. length k = 32 \<and> wt_snode n"
proof (cases "js_find J (the (js_parse J data)) (str ''service_node_states'')")
  case None
  then show ?thesis using assms(1) by (auto simp: ParseNodeList_def ebind_eq_Inr)
next
  case (Some states)
  then have "parse_entries X J place mem 0 [] (js_elements J states) = Inr nodes"
    using assms(1) by (auto simp: ParseNodeList_def ebind_eq_Inr)
  then obtain infos where infos: "length infos = length (js_elements J states)"
      "\<forall>n < length (js_elements J states).
         snode_info_of_json X J (mem (0 + n)) (js_elements J states ! n) = Inr (infos ! n)"
      "nodes = umap_assign.put_all place [] (map (\<lambda>info. (identity info, info)) infos)"
    using parse_entries_put_all by blast
  have wt: "\<forall>info \<in> set infos. wt_snode info"
    using infos(1,2) assms(3) snode_info_of_json_wt by (metis in_set_conv_nth)
  show ?thesis
  proof clarify
    fix k n assume kn: "(k, n) \<in> set nodes"
    then have "map_of nodes k = Some n" using ParseNodeList_keyed(1) [OF assms(1,2)] by simp
    then have "map_of (rev (map (\<lambda>info. (identity info, info)) infos)) k = Some n"
      unfolding infos(3) by (simp add: umap_assign.last_wins [OF assms(2)] split: option.splits)
    then show "length k = 32 \<and> wt_snode n"
      using wt by (auto dest!: map_of_SomeD simp: wt_snode_def)
  qed
qed

text \<open>
  Parsing is defined as long as the texts under the two key members are hex: \<open>from_hex\<close> is called
  without a check.
\<close>

definition key_texts_hex :: "oxenc \<Rightarrow> 'j json_lib \<Rightarrow> bytes \<Rightarrow> bool" where
  "key_texts_hex X J data \<longleftrightarrow>
     (\<forall>val states e s k. js_parse J data = Some val \<longrightarrow>
        js_find J val (str ''service_node_states'') = Some states \<longrightarrow> e \<in> set (js_elements J states) \<longrightarrow>
        k \<in> {str ''pubkey_ed25519'', str ''pubkey_x25519''} \<longrightarrow> json_string_at J e k = Inr s \<longrightarrow>
        ox_is_hex X s)"

lemma snode_info_of_json_defined:
  assumes "hex_ok X"
    and "\<And>k s. k \<in> {str ''pubkey_ed25519'', str ''pubkey_x25519''} \<Longrightarrow> json_string_at J e k = Inr s \<Longrightarrow>
      ox_is_hex X s"
  shows "is_defined (snode_info_of_json X J m e)"
  unfolding snode_info_of_json_def
  by (intro ebind_defined json_at_defined LoadFromHex_defined [OF assms(1)]) (auto intro: assms(2))

lemma parse_entries_defined:
  "hex_ok X \<Longrightarrow> (\<And>e k s. e \<in> set entries \<Longrightarrow> k \<in> {str ''pubkey_ed25519'', str ''pubkey_x25519''} \<Longrightarrow>
     json_string_at J e k = Inr s \<Longrightarrow> ox_is_hex X s) \<Longrightarrow>
   is_defined (parse_entries X J place mem i list entries)"
proof (induction entries arbitrary: i list)
  case (Cons e entries)
  have "is_defined (snode_info_of_json X J (mem i) e)"
    by (rule snode_info_of_json_defined [OF Cons.prems(1)]) (use Cons.prems(2) in auto)
  moreover have "is_defined (parse_entries X J place mem (Suc i) list' entries)" for list'
    by (rule Cons.IH [OF Cons.prems(1)]) (use Cons.prems(2) in auto)
  ultimately show ?case
    unfolding parse_entries.simps by (intro ebind_defined)
qed simp

lemma ParseNodeList_defined:
  assumes "hex_ok X" and "key_texts_hex X J data"
  shows "is_defined (ParseNodeList X J place mem data)"
proof (cases "js_parse J data")
  case (Some val)
  then have "is_defined (parse_entries X J place mem 0 [] (js_elements J states))"
    if "js_find J val (str ''service_node_states'') = Some states" for states
    using assms(2) that unfolding key_texts_hex_def
    by (intro parse_entries_defined [OF assms(1)]) blast
  with Some show ?thesis by (simp add: ParseNodeList_def split: option.splits)
qed (simp add: ParseNodeList_def)

text \<open>
  The key texts of an entry: both at most as long as a key in hex; and the keys of a node made of
  them, in an object that held \<open>mem\<close> before.
\<close>

definition short_key_texts :: "'j json_lib \<Rightarrow> 'j \<Rightarrow> bool" where
  "short_key_texts J e \<longleftrightarrow>
     (\<exists>ed x. json_string_at J e (str ''pubkey_ed25519'') = Inr ed \<and>
        json_string_at J e (str ''pubkey_x25519'') = Inr x \<and> length ed \<le> 64 \<and> length x \<le> 64)"

definition keys_from ::
    "oxenc \<Rightarrow> 'j json_lib \<Rightarrow> snode_info \<Rightarrow> 'j \<Rightarrow> ed25519_pubkey \<Rightarrow> snode_info \<Rightarrow> bool" where
  "keys_from X J mem e k n \<longleftrightarrow> k = identity n \<and>
     (\<exists>ed x. json_string_at J e (str ''pubkey_ed25519'') = Inr ed \<and>
        json_string_at J e (str ''pubkey_x25519'') = Inr x \<and>
        identity n = ox_from_hex X ed @ drop (length ed div 2) (identity mem) \<and>
        onion n = ox_from_hex X x @ drop (length x div 2) (onion mem) \<and>
        (length ed = 64 \<longrightarrow> identity n = ox_from_hex X ed) \<and>
        (length x = 64 \<longrightarrow> onion n = ox_from_hex X x))"

lemma entry_keys:
  assumes "hex_ok X" and "snode_info_of_json X J mem e = Inr n" and "wt_snode mem"
  shows "short_key_texts J e \<and> keys_from X J mem e (identity n) n"
proof -
  obtain ed x where texts: "json_string_at J e (str ''pubkey_ed25519'') = Inr ed"
      "json_string_at J e (str ''pubkey_x25519'') = Inr x"
      "length ed \<le> 2 * length (identity mem)" "length x \<le> 2 * length (onion mem)"
      "identity n = hex_over X ed (identity mem)" "onion n = hex_over X x (onion mem)"
    using snode_info_of_json_keys [OF assms(1,2)] .
  with assms(3) show ?thesis
    unfolding short_key_texts_def keys_from_def
    by (auto simp: hex_over_def wt_snode_def intro!: exI [of _ ed] exI [of _ x])
qed

lemma ObtainConnection_cached [simp]:
  "conn f = Some c \<Longrightarrow> ObtainConnection M draw f w g = (Inr (Some c), f, w, g)"
  by (simp add: ObtainConnection_def)

subsection \<open>Properties\<close>

lemma ref_RPCBody: "\<exists>body. RPCBody ref_json = Inr body"
  by (simp add: RPCBody_def ref_json_def ascii_def str_def)

definition ref_list_json :: jref where
  "ref_list_json = JObj [(str ''service_node_states'', JArr [ref_node_json, ref_node_json])]"

lemma ref_list_parse:
  "ParseNodeList ref_oxenc ref_json place_back (\<lambda>i. ref_node) (jenc ref_list_json)
    = Inr [(identity ref_node, ref_node)]"
proof -
  have node: "snode_info_of_json ref_oxenc ref_json ref_node ref_node_json = Inr ref_node"
    by (simp add: snode_info_of_json_def json_string_at_def json_uint16_at_def ref_node_json_def
        ref_json_def ref_oxenc_def str_def)
      (simp add: LoadFromHex_whole [OF ref_oxenc_ok(1), unfolded ref_oxenc_def, simplified])
  show ?thesis
    unfolding ParseNodeList_def ref_parse_dump
    by (simp add: ref_list_json_def ref_json_def node [unfolded ref_json_def] umap_assign_def
        place_back_def)
qed

text \<open>
  C32. A node list that parses holds each identity once, under the key it is the identity of, and
  for every identity the node of its last entry in the reply, each entry read by the json
  constructor; which entries share buckets does not matter.
\<close>

theorem ParseNodeList_last_wins:
  assumes "place_ok place" and "js_parse J data = Some val"
    and "js_find J val (str ''service_node_states'') = Some states"
    and "ParseNodeList X J place mem data = Inr nodes"
  shows "distinct (map fst nodes) \<and> (\<forall>(k, n) \<in> set nodes. identity n = k) \<and>
    (\<exists>infos. length infos = length (js_elements J states) \<and>
      (\<forall>i < length infos. snode_info_of_json X J (mem i) (js_elements J states ! i) = Inr (infos ! i)) \<and>
      (\<forall>k. map_of nodes k = map_of (rev (map (\<lambda>info. (identity info, info)) infos)) k))"
proof -
  have "parse_entries X J place mem 0 [] (js_elements J states) = Inr nodes"
    using assms(2-4) by (simp add: ParseNodeList_def)
  then obtain infos where infos: "length infos = length (js_elements J states)"
      "\<forall>n < length (js_elements J states).
         snode_info_of_json X J (mem (0 + n)) (js_elements J states ! n) = Inr (infos ! n)"
      "nodes = umap_assign.put_all place [] (map (\<lambda>info. (identity info, info)) infos)"
    using parse_entries_put_all by blast
  moreover have "map_of nodes k = map_of (rev (map (\<lambda>info. (identity info, info)) infos)) k" for k
    unfolding infos(3) by (simp add: umap_assign.last_wins [OF assms(1)] split: option.splits)
  ultimately show ?thesis
    using ParseNodeList_keyed(1,2) [OF assms(4,1)] by auto
qed

theorem ParseNodeList_last_wins_witness:
  "distinct (map fst [(identity ref_node, ref_node)]) \<and>
   (\<exists>infos. length infos = 2 \<and> map_of [(identity ref_node, ref_node)] (identity ref_node)
     = map_of (rev (map (\<lambda>info. (identity info, info)) infos)) (identity ref_node))"
proof -
  have "js_find ref_json ref_list_json (str ''service_node_states'') = Some (JArr [ref_node_json, ref_node_json])"
    and two: "js_elements ref_json (JArr [ref_node_json, ref_node_json]) = [ref_node_json, ref_node_json]"
    by (simp_all add: ref_list_json_def ref_json_def)
  from ParseNodeList_last_wins [OF place_ok_examples(2) ref_parse_dump this(1) ref_list_parse]
  obtain infos where "length infos = length (js_elements ref_json (JArr [ref_node_json, ref_node_json]))"
      and look: "\<forall>k. map_of [(identity ref_node, ref_node)] k
        = map_of (rev (map (\<lambda>info. (identity info, info)) infos)) k"
    by blast
  then have "length infos = 2" by (simp add: two)
  with look show ?thesis by (intro conjI exI [of _ infos]) (simp_all del: map_of.simps)
qed



text \<open>
  C36. The reply callback of \<open>FetchAll\<close> hands the caller a node list, once, for every reply whose key
  texts, if it has any, are hex: the parsed list when the request succeeded, has a second part, and
  that part parses; the empty one after a failure, a timeout, or any exception while parsing
  (malformed json, missing or mistyped members, keys that are too long). In a list handed over no
  identity occurs twice.
\<close>

theorem fetch_reply_total:
  assumes "hex_ok X" and "place_ok place" 
    and "success \<and> 2 \<le> length msgs \<Longrightarrow> key_texts_hex X J (msgs ! 1)"
  shows "\<exists>nodes. fetch_reply X J place mem success msgs = Inr nodes \<and>
    nodes = (if success \<and> 2 \<le> length msgs
       then (case ParseNodeList X J place mem (msgs ! 1) of Inl e \<Rightarrow> [] | Inr nodes \<Rightarrow> nodes)
       else []) \<and> distinct (map fst nodes)"
proof (cases "success \<and> 2 \<le> length msgs")
  case True
  with ParseNodeList_defined [OF assms(1,3), of place mem]
    ParseNodeList_keyed(1) [of X J place mem "msgs ! 1"] assms(2)
  show ?thesis by (auto simp: fetch_reply_def catch_all_cases split: sum.splits)
qed (auto simp: fetch_reply_def)

theorem fetch_reply_total_witness:
  "\<exists>nodes. fetch_reply ref_oxenc ref_json place_back (\<lambda>i. ref_node) True [str ''200'', jenc ref_list_json]
      = Inr nodes \<and> nodes = [(identity ref_node, ref_node)]"
proof -
  have hex: "ox_is_hex ref_oxenc (ref_to_hex k)" for k
    using hex_okD(1) [OF ref_oxenc_ok(1), of k] by (simp add: ref_oxenc_def)
  have "key_texts_hex ref_oxenc ref_json (jenc ref_list_json)"
    unfolding key_texts_hex_def ref_parse_dump
    using hex by (auto simp: ref_list_json_def ref_node_json_def ref_json_def json_string_at_def str_def)
  then show ?thesis
    using fetch_reply_total [OF ref_oxenc_ok(1) place_ok_examples(2), of True
        "[str ''200'', jenc ref_list_json]" ref_json "\<lambda>i. ref_node"] ref_list_parse by simp
qed

text \<open>
  C40. One connection per fetcher: \<open>FetchAll\<close> connects when it has no connection and remembers the one
  it gets, and any later call sends its request over that one without connecting again; when the
  attempt fails the caller gets the empty list at once and the next call tries again.
\<close>

theorem FetchAll_connection:
  assumes "draw_ok draw" and "conn f = None" and "seeds f = seed # rest" and "mq_address M seed = Some a"
    and "mq_connect M a w = (c, w')" and "RPCBody J = Inr body"
    and "FetchAll X J M place mem draw f w g = (out, f', v, g')"
  shows "v = w' \<and> conn f' = c \<and> seeds f' = seeds f \<and>
    (case c of
       None \<Rightarrow> out = Inr (Called [])
     | Some k \<Rightarrow> out = Inr (Requested k RPCMethod body (fetch_reply X J place mem)) \<and>
         (\<forall>w2 g2. FetchAll X J M place mem draw f' w2 g2
           = (Inr (Requested k RPCMethod body (fetch_reply X J place mem)), f', w2, g2)))"
proof -
  obtain e g1 where p: "pick_random_from draw (parse_address M) (seeds f) g = (e, g1)" by fastforce
  then have "e = Inr a"
    using pick_random_value [OF assms(1), of "parse_address M" "seeds f" g] assms(3,4)
    by (simp add: parse_address_def)
  with p assms have "ObtainConnection M draw f w g = (Inr c, f\<lparr>conn := c\<rparr>, w', g1)"
    by (simp add: ObtainConnection_def)
  with assms(6,7) show ?thesis
    by (cases c) (auto simp: FetchAll_def)
qed

theorem FetchAll_connection_witness:
  "\<exists>body out f' g'. FetchAll ref_oxenc ref_json ref_mq place_back (\<lambda>i. ref_node) (prng_draw ref_sodium)
      \<lparr>seeds = [[65]], conn = None\<rparr> 0 0 = (out, f', 1, g') \<and> conn f' = Some 0 \<and>
    out = Inr (Requested 0 RPCMethod body (fetch_reply ref_oxenc ref_json place_back (\<lambda>i. ref_node)))"
proof -
  obtain body where body: "RPCBody ref_json = Inr body" using ref_RPCBody by blast
  obtain out f' v g' where f: "FetchAll ref_oxenc ref_json ref_mq place_back (\<lambda>i. ref_node)
      (prng_draw ref_sodium) \<lparr>seeds = [[65]], conn = None\<rparr> 0 0 = (out, f', v, g')"
    by (metis prod_cases4)
  have "mq_address ref_mq [65] = Some [65]" "mq_connect ref_mq [65] 0 = (Some 0, 1)"
    by (simp_all add: ref_mq_def)
  from FetchAll_connection [OF prng_draw_ok _ _ this body f] f show ?thesis by auto
qed

text \<open>
  Without seed nodes \<open>FetchAll\<close> throws, and so it does when the first seed is not an address: the
  caller's callback is never called then.
\<close>

theorem FetchAll_no_seeds:
  assumes "draw_ok draw" and "conn f = None"
    and "seeds f = [] \<or> mq_address M (hd (seeds f)) = None"
  shows "fst (FetchAll X J M place mem draw f w g) = Inl
    (if seeds f = [] then Invalid_Argument (str ''selection range empty'') else Address_Error)"
proof -
  obtain e g1 where p: "pick_random_from draw (parse_address M) (seeds f) g = (e, g1)" by fastforce
  then have "e = Inl (if seeds f = [] then Invalid_Argument (str ''selection range empty'') else Address_Error)"
    using pick_random_value [OF assms(1), of "parse_address M" "seeds f" g] assms(3)
    by (cases "seeds f") (auto simp: parse_address_def)
  with p assms(2) show ?thesis by (simp add: FetchAll_def ObtainConnection_def)
qed

theorem FetchAll_no_seeds_witness:
  "fst (FetchAll ref_oxenc ref_json ref_mq place_back (\<lambda>i. ref_node) (prng_draw ref_sodium)
      (CreateNodeFetcher \<lparr>consensus_seeds = []\<rparr>) 0 0) = Inl (Invalid_Argument (str ''selection range empty''))"
  using FetchAll_no_seeds [OF prng_draw_ok [of ref_sodium], of "CreateNodeFetcher \<lparr>consensus_seeds = []\<rparr>" ref_mq
      ref_oxenc ref_json place_back "\<lambda>i. ref_node" 0 0]
  by (simp add: CreateNodeFetcher_def)

end
