(* ===== verification/Fetcher_Threads.thy ===== *)
theory Fetcher_Threads
  imports Node_Fetcher
begin

text \<open>
  The node list fetcher called by several threads (\<open>OxenMQ_NodeFetcher_JSON::ObtainConnection\<close> in
  onionreq/consensus.cpp, which the Python \<open>fetch_all\<close> calls with the interpreter lock released).
  Unlike the selector and the transport it has no mutex: the member \<open>_conn\<close> is read in the test,
  written with the result of the attempt and read again in the return, and nothing orders these
  accesses of one thread with those of another. Where two threads are about to access \<open>_conn\<close>, one
  of them to write it, the program has a data race and its behaviour is undefined from there on.
  Up to such a state C++ lets threads be interleaved access by access.
\<close>

subsection \<open>One thread\<close>

text \<open>
  \<open>F_Done r\<close> has returned \<open>r\<close>; \<open>F_Threw\<close> has left by an exception (no seeds, or a seed that is no
  address). From both, as from \<open>F_Idle\<close>, the thread may call again.
\<close>

datatype 'c fetch_phase =
    F_Idle
  | F_Testing
  | F_Connecting
  | F_Assigning "'c option"
  | F_Returning
  | F_Done "'c option"
  | F_Threw

fun between_calls :: "'c fetch_phase \<Rightarrow> bool" where
  "between_calls F_Idle = True"
| "between_calls (F_Done r) = True"
| "between_calls F_Threw = True"
| "between_calls p = False"

text \<open>
  One access or one stretch without access, on the contents of \<open>_conn\<close> and the place the thread is
  at. \<open>answers\<close> are the possible outcomes of an attempt to connect.
\<close>

inductive fetch_thread ::
    "'c option set \<Rightarrow> 'c option \<Rightarrow> 'c fetch_phase \<Rightarrow> 'c option \<Rightarrow> 'c fetch_phase \<Rightarrow> bool"
  for answers :: "'c option set" where
  called: "between_calls p \<Longrightarrow> fetch_thread answers k p k F_Testing"
| cached: "fetch_thread answers (Some c) F_Testing (Some c) F_Returning"
| not_cached: "fetch_thread answers None F_Testing None F_Connecting"
| threw: "fetch_thread answers k F_Connecting k F_Threw"
| answered: "r \<in> answers \<Longrightarrow> fetch_thread answers k F_Connecting k (F_Assigning r)"
| assign: "fetch_thread answers k (F_Assigning r) r F_Returning"
| returned: "fetch_thread answers k F_Returning k (F_Done k)"

subsection \<open>Threads that share a fetcher\<close>

text \<open>What a thread does to \<open>_conn\<close> next.\<close>

datatype conn_access = Reads | Writes

fun next_access :: "'c fetch_phase \<Rightarrow> conn_access option" where
  "next_access F_Testing = Some Reads"
| "next_access (F_Assigning r) = Some Writes"
| "next_access F_Returning = Some Reads"
| "next_access p = None"

definition racing :: "(nat \<Rightarrow> 'c fetch_phase) \<Rightarrow> bool" where
  "racing ph \<longleftrightarrow>
     (\<exists>i j. i \<noteq> j \<and> next_access (ph i) = Some Writes \<and> next_access (ph j) \<noteq> None)"

datatype 'c fetch_state =
    Running "'c option" "nat \<Rightarrow> 'c fetch_phase"
  | Undefined_Behaviour

inductive fetcher_step ::
    "'c option set \<Rightarrow> nat set \<Rightarrow> 'c fetch_state \<Rightarrow> 'c fetch_state \<Rightarrow> bool"
  for answers :: "'c option set" and threads :: "nat set" where
  thread: "i \<in> threads \<Longrightarrow> \<not> racing ph \<Longrightarrow> fetch_thread answers k (ph i) k' p \<Longrightarrow>
    fetcher_step answers threads (Running k ph) (Running k' (ph(i := p)))"
| race: "racing ph \<Longrightarrow> fetcher_step answers threads (Running k ph) Undefined_Behaviour"

inductive_cases running_step: "fetcher_step answers threads (Running k ph) s"
inductive_cases undefined_step: "fetcher_step answers threads Undefined_Behaviour s"
inductive_cases thread_step: "fetch_thread answers k p k' p'"

subsection \<open>Lemmas\<close>

text \<open>
  An invariant of the interleaving that rules out races is one that every thread keeps: then the
  undefined state is never reached.
\<close>

lemma race_free_run:
  assumes "(fetcher_step answers threads)\<^sup>*\<^sup>* (Running k ph) s" and "I k ph"
    and "\<And>k ph. I k ph \<Longrightarrow> \<not> racing ph"
    and "\<And>k ph i k' p. I k ph \<Longrightarrow> i \<in> threads \<Longrightarrow> fetch_thread answers k (ph i) k' p \<Longrightarrow>
      I k' (ph(i := p))"
  shows "\<exists>k' ph'. s = Running k' ph' \<and> I k' ph'"
  using assms(1,2)
proof (induction rule: rtranclp_induct)
  case (step s t)
  then show ?case using assms(3,4) by (auto elim!: running_step)
qed simp

text \<open>With a connection cached nobody writes.\<close>

definition all_cached :: "'c option \<Rightarrow> 'c option \<Rightarrow> (nat \<Rightarrow> 'c fetch_phase) \<Rightarrow> bool" where
  "all_cached k0 k ph \<longleftrightarrow> k = k0 \<and> k0 \<noteq> None \<and>
     (\<forall>i. ph i \<in> {F_Idle, F_Testing, F_Returning, F_Done k0})"

lemma all_cached_no_race: "all_cached k0 k ph \<Longrightarrow> \<not> racing ph"
proof
  assume inv: "all_cached k0 k ph" and "racing ph"
  then obtain i where "next_access (ph i) = Some Writes" by (auto simp: racing_def)
  moreover have "ph i \<in> {F_Idle, F_Testing, F_Returning, F_Done k0}"
    using inv unfolding all_cached_def by blast
  ultimately show False by auto
qed

lemma all_cached_thread:
  assumes "all_cached k0 k ph" and "fetch_thread answers k (ph i) k' p"
  shows "all_cached k0 k' (ph(i := p))"
proof -
  have "ph i \<in> {F_Idle, F_Testing, F_Returning, F_Done k0}" and k: "k = k0" "k0 \<noteq> None"
    using assms(1) by (simp_all add: all_cached_def)
  then have "k' = k0 \<and> p \<in> {F_Idle, F_Testing, F_Returning, F_Done k0}"
    using assms(2) by (auto elim!: thread_step)
  then show ?thesis using assms(1) by (simp add: all_cached_def)
qed

text \<open>A thread by itself: what it returns is what is cached, the answer of an attempt.\<close>

definition alone :: "'c option set \<Rightarrow> nat set \<Rightarrow> 'c option \<Rightarrow> (nat \<Rightarrow> 'c fetch_phase) \<Rightarrow> bool" where
  "alone answers threads k ph \<longleftrightarrow>
     (\<forall>i j. i \<in> threads \<longrightarrow> j \<in> threads \<longrightarrow> i = j) \<and> (\<forall>i. i \<notin> threads \<longrightarrow> ph i = F_Idle) \<and>
     (k = None \<or> k \<in> answers) \<and>
     (\<forall>i r. ph i = F_Assigning r \<longrightarrow> r \<in> answers) \<and> (\<forall>i. ph i = F_Returning \<longrightarrow> k \<in> answers) \<and>
     (\<forall>i r. ph i = F_Done r \<longrightarrow> r = k \<and> r \<in> answers)"

lemma alone_no_race: "alone answers threads k ph \<Longrightarrow> \<not> racing ph"
  unfolding alone_def racing_def by (metis next_access.simps(4) option.distinct(1))

lemma alone_thread:
  assumes "alone answers threads k ph" and "i \<in> threads" and "fetch_thread answers k (ph i) k' p"
  shows "alone answers threads k' (ph(i := p))"
proof -
  have only: "j = i \<or> ph j = F_Idle" for j using assms(1,2) unfolding alone_def by blast
  have phi: "k = None \<or> k \<in> answers" "\<And>r. ph i = F_Assigning r \<Longrightarrow> r \<in> answers"
      "ph i = F_Returning \<Longrightarrow> k \<in> answers"
    using assms(1) unfolding alone_def by blast+
  have "(k' = None \<or> k' \<in> answers) \<and> (\<forall>r. p = F_Assigning r \<longrightarrow> r \<in> answers) \<and>
      (p = F_Returning \<longrightarrow> k' \<in> answers) \<and> (\<forall>r. p = F_Done r \<longrightarrow> r = k' \<and> r \<in> answers)"
    using assms(3) phi by (cases rule: fetch_thread.cases) auto
  moreover have "\<forall>a b. a \<in> threads \<longrightarrow> b \<in> threads \<longrightarrow> a = b" "\<forall>j. j \<notin> threads \<longrightarrow> ph j = F_Idle"
    using assms(1) unfolding alone_def by blast+
  moreover have "ph(i := p) = (\<lambda>j. F_Idle)(i := p)"
  proof
    fix j show "(ph(i := p)) j = ((\<lambda>j. F_Idle)(i := p)) j" using only [of j] by auto
  qed
  ultimately show ?thesis using assms(2) unfolding alone_def by simp
qed

text \<open>Two threads that both find nothing cached both come to write.\<close>

lemma race_reached:
  assumes "r \<in> answers" and "i \<in> threads" and "j \<in> threads" and "i \<noteq> j"
  shows "(fetcher_step answers threads)\<^sup>*\<^sup>* (Running None (\<lambda>i. F_Idle)) Undefined_Behaviour"
proof -
  let ?S = "fetcher_step answers threads" and ?w = "\<lambda>i. F_Idle"
  note go = fetcher_step.thread [where answers = answers and threads = threads]
  have quiet: "\<not> racing (\<lambda>a. if a = i then p else if a = j then q else F_Idle)"
    if "next_access p \<noteq> Some Writes" "next_access q \<noteq> Some Writes" for p q :: "'a fetch_phase"
    using that by (auto simp: racing_def split: if_splits)
  define st where "st p q = Running None (\<lambda>a. if a = i then p else if a = j then q else F_Idle)"
    for p q :: "'a fetch_phase"
  have 1: "?S (st p q) (st p' q)"
    if "fetch_thread answers None p None p'" "next_access p \<noteq> Some Writes" "next_access q \<noteq> Some Writes"
    for p q p'
    using go [OF assms(2) quiet [OF that(2,3)], of None None p'] that(1)
    by (simp add: st_def fun_upd_def cong: if_cong)
  have 2: "?S (st p q) (st p q')"
    if "fetch_thread answers None q None q'" "next_access p \<noteq> Some Writes" "next_access q \<noteq> Some Writes"
    for p q q'
  proof -
    have "(\<lambda>a. if a = i then p else if a = j then q else F_Idle)(j := q')
        = (\<lambda>a. if a = i then p else if a = j then q' else F_Idle)"
      using assms(4) by auto
    then show ?thesis
      using go [OF assms(3) quiet [OF that(2,3)], of None None q'] that(1) assms(4)
      by (simp add: st_def)
  qed
  have "?S (st F_Idle F_Idle) (st F_Testing F_Idle)" by (rule 1) (simp_all add: fetch_thread.called)
  moreover have "?S (st F_Testing F_Idle) (st F_Testing F_Testing)"
    by (rule 2) (simp_all add: fetch_thread.called)
  moreover have "?S (st F_Testing F_Testing) (st F_Connecting F_Testing)"
    by (rule 1) (simp_all add: fetch_thread.not_cached)
  moreover have "?S (st F_Connecting F_Testing) (st F_Connecting F_Connecting)"
    by (rule 2) (simp_all add: fetch_thread.not_cached)
  moreover have "?S (st F_Connecting F_Connecting) (st (F_Assigning r) F_Connecting)"
    by (rule 1) (simp_all add: fetch_thread.answered assms(1))
  ultimately have "?S\<^sup>*\<^sup>* (st F_Idle F_Idle) (st (F_Assigning r) F_Connecting)"
    by (meson rtranclp.rtrancl_into_rtrancl rtranclp.rtrancl_refl)
  moreover have "\<not> racing (\<lambda>a. if a = i then F_Assigning r else if a = j then F_Connecting else F_Idle)"
    by (auto simp: racing_def split: if_splits)
  from go [OF assms(3) this, of None None "F_Assigning r"]
  have "?S (st (F_Assigning r) F_Connecting)
      (Running None ((\<lambda>a. if a = i then F_Assigning r else if a = j then F_Connecting else F_Idle)(j := F_Assigning r)))"
    using assms(1,4) by (simp add: st_def fetch_thread.answered)
  moreover have "racing ((\<lambda>a. if a = i then F_Assigning r else if a = j then F_Connecting else F_Idle)(j := F_Assigning r))"
    unfolding racing_def using assms(4) by (intro exI [of _ i] exI [of _ j]) simp
  then have "?S (Running None ((\<lambda>a. if a = i then F_Assigning r else if a = j then F_Connecting else F_Idle)(j := F_Assigning r)))
      Undefined_Behaviour"
    by (rule fetcher_step.race)
  moreover have "st F_Idle F_Idle = Running None ?w" by (simp add: st_def cong: if_cong)
  ultimately show ?thesis by (metis (no_types) rtranclp.rtrancl_into_rtrancl)
qed

text \<open>The run of one thread while no other has an access before it.\<close>

lemma quiet_others:
  assumes "\<forall>j. j \<noteq> i \<longrightarrow> between_calls (ph j)"
  shows "\<not> racing (ph(i := p))"
proof -
  have "next_access (ph j) = None" if "j \<noteq> i" for j
    using assms that by (cases "ph j") (metis between_calls.simps next_access.simps)+
  then show ?thesis unfolding racing_def by (metis fun_upd_other option.distinct(1))
qed

lemma solo_step:
  assumes "\<forall>j. j \<noteq> i \<longrightarrow> between_calls (ph j)" and "fetch_thread answers k p k' p'" and "i \<in> threads"
  shows "fetcher_step answers threads (Running k (ph(i := p))) (Running k' (ph(i := p')))"
  using fetcher_step.thread [OF assms(3) quiet_others [of i ph p, OF assms(1)], where k = k] assms(2)
  by fastforce

subsection \<open>Properties\<close>

text \<open>
  The sequential \<open>ObtainConnection\<close> is the run of one thread while no other is in a call: it returns
  and caches what its own attempt gave, or what was cached.
\<close>

theorem ObtainConnection_refines:
  assumes "ObtainConnection M draw f w g = (Inr c, f', w', g')"
    and "i \<in> threads" and "\<forall>j. j \<noteq> i \<longrightarrow> between_calls (ph j)"
  shows "(fetcher_step UNIV threads)\<^sup>*\<^sup>* (Running (conn f) (ph(i := F_Testing)))
    (Running (conn f') (ph(i := F_Done c)))"
proof -
  note go = solo_step [OF assms(3) _ assms(2), where answers = UNIV]
  show ?thesis
  proof (cases "conn f")
    case None
    then have c: "conn f' = c"
      using assms(1) by (auto simp: ObtainConnection_def split: prod.splits sum.splits)
    from go [OF fetch_thread.not_cached] go [OF fetch_thread.answered, of c]
      go [OF fetch_thread.assign] go [OF fetch_thread.returned]
    show ?thesis unfolding None c
      by (meson UNIV_I converse_rtranclp_into_rtranclp rtranclp.rtrancl_refl)
  next
    case (Some k)
    then have "c = Some k \<and> conn f' = Some k"
      using assms(1) by (auto simp: ObtainConnection_def)
    with Some go [OF fetch_thread.cached, of k] go [OF fetch_thread.returned, of "Some k"]
    show ?thesis by (metis (no_types) converse_rtranclp_into_rtranclp r_into_rtranclp)
  qed
qed

theorem ObtainConnection_refines_witness:
  "(fetcher_step UNIV {2})\<^sup>*\<^sup>* (Running None ((\<lambda>i. F_Idle)(2 := F_Testing)))
    (Running (Some 0) ((\<lambda>i. F_Idle)(2 := F_Done (Some (0 :: nat)))))"
proof -
  have "fst (pick_random_from (prng_draw ref_sodium) (parse_address ref_mq) [[65]] 0) = Inr [65]"
    using pick_random_value [OF prng_draw_ok [of ref_sodium], of "parse_address ref_mq" "[[65]]" 0]
    by (simp add: parse_address_def ref_mq_def)
  then obtain g where "pick_random_from (prng_draw ref_sodium) (parse_address ref_mq) [[65]] 0 = (Inr [65], g)"
    by (metis prod.collapse)
  then have "ObtainConnection ref_mq (prng_draw ref_sodium) \<lparr>seeds = [[65]], conn = None\<rparr> 0 0
      = (Inr (Some 0), \<lparr>seeds = [[65]], conn = Some 0\<rparr>, 1, g)"
    by (simp add: ObtainConnection_def ref_mq_def)
  from ObtainConnection_refines [OF this, of 2 "{2}" "\<lambda>i. F_Idle"] show ?thesis by simp
qed

text \<open>
  C26. When calls of \<open>ObtainConnection\<close> race: exactly when no connection is cached at first and more
  than one thread calls. Then two of them can come to write \<open>_conn\<close> at the same time, and the
  behaviour is undefined. Otherwise it never is, however often and in whatever order the threads
  call, and a call that returns gives what is cached: the connection that was there at first,
  or else the outcome of an attempt of the one thread.
\<close>

theorem fetcher_conn_race:
  assumes "answers \<noteq> {}"
  shows "((fetcher_step answers threads)\<^sup>*\<^sup>* (Running k0 (\<lambda>i. F_Idle)) Undefined_Behaviour \<longleftrightarrow>
      k0 = None \<and> (\<exists>i\<in>threads. \<exists>j\<in>threads. i \<noteq> j)) \<and>
    ((fetcher_step answers threads)\<^sup>*\<^sup>* (Running k0 (\<lambda>i. F_Idle)) (Running k ph) \<and>
      (k0 = None \<longrightarrow> (\<forall>i\<in>threads. \<forall>j\<in>threads. i = j)) \<and> ph a = F_Done r \<longrightarrow>
      r = k \<and> (if k0 = None then r \<in> answers else r = k0))"
proof -
  let ?S = "fetcher_step answers threads" and ?start = "Running k0 (\<lambda>i. F_Idle)"
  have cached: "\<exists>k ph. s = Running k ph \<and> all_cached k0 k ph" if "?S\<^sup>*\<^sup>* ?start s" "k0 \<noteq> None" for s
  proof (rule race_free_run [OF that(1), where I = "all_cached k0"])
    show "all_cached k0 k0 (\<lambda>i. F_Idle)" using that(2) by (simp add: all_cached_def)
  qed (auto intro: all_cached_thread dest: all_cached_no_race)
  have lone: "\<exists>k ph. s = Running k ph \<and> alone answers threads k ph"
    if "?S\<^sup>*\<^sup>* ?start s" "k0 = None" "\<forall>i\<in>threads. \<forall>j\<in>threads. i = j" for s
  proof (rule race_free_run [OF that(1), where I = "alone answers threads"])
    show "alone answers threads k0 (\<lambda>i. F_Idle)" using that(2,3) by (simp add: alone_def)
  qed (auto intro: alone_thread dest: alone_no_race)
  obtain r0 where "r0 \<in> answers" using assms by blast
  then have "?S\<^sup>*\<^sup>* ?start Undefined_Behaviour \<longleftrightarrow> k0 = None \<and> (\<exists>i\<in>threads. \<exists>j\<in>threads. i \<noteq> j)"
    using cached lone race_reached by (metis (no_types) fetch_state.distinct(1))
  moreover have "r = k \<and> (if k0 = None then r \<in> answers else r = k0)"
    if "?S\<^sup>*\<^sup>* ?start (Running k ph)" "k0 = None \<longrightarrow> (\<forall>i\<in>threads. \<forall>j\<in>threads. i = j)" "ph a = F_Done r"
  proof (cases "k0 = None")
    case True
    then have "alone answers threads k ph" using lone [OF that(1) True] that(2) by simp
    then show ?thesis using that(3) True unfolding alone_def by simp
  next
    case False
    then have inv: "all_cached k0 k ph" using cached [OF that(1) False] by simp
    then have "ph a \<in> {F_Idle, F_Testing, F_Returning, F_Done k0}" unfolding all_cached_def by blast
    then have "r = k0" using that(3) by auto
    then show ?thesis using False inv by (auto simp: all_cached_def)
  qed
  ultimately show ?thesis by blast
qed

theorem fetcher_conn_race_witness:
  "(fetcher_step {Some (5 :: nat)} {0, 1})\<^sup>*\<^sup>* (Running None (\<lambda>i. F_Idle)) Undefined_Behaviour \<and>
   \<not> (fetcher_step {Some (5 :: nat)} {0, 1})\<^sup>*\<^sup>* (Running (Some 5) (\<lambda>i. F_Idle)) Undefined_Behaviour"
  using fetcher_conn_race [of "{Some (5 :: nat)}" "{0, 1}" None]
    fetcher_conn_race [of "{Some (5 :: nat)}" "{0, 1}" "Some 5"] by simp

end
