(* ===== verification/Client.thy ===== *)
theory Client
  imports Node_Fetcher Transport
begin

text \<open>
  tests/onionrequest.cpp, the command-line client: it fetches the node list, picks a remote, selects
  a path, makes an onion, posts it to the first hop over HTTPS and handles the answer. The process
  ends with the value of a promise that the handler, \<open>sendOnion\<close> and the signal handler set; its
  state is \<open>None\<close> until then, and setting it twice throws \<open>std::future_error\<close> (\<open>Future_Error\<close>), which
  nothing catches. \<open>cpr::Post\<close> is a parameter: from the url, the body and the \<open>VerifySsl\<close> flag to the
  status code and the text of the answer.
\<close>

type_synonym 'w cpr_post = "bytes \<Rightarrow> bytes \<Rightarrow> bool \<Rightarrow> 'w \<Rightarrow> (int \<times> bytes) \<times> 'w"
type_synonym exit_promise = "int option"

definition set_value :: "int \<Rightarrow> exit_promise \<Rightarrow> exit_promise result" where
  "set_value code e = (case e of None \<Rightarrow> Inr (Some code) | Some c \<Rightarrow> Inl Future_Error)"

definition handle_signal :: "exit_promise \<Rightarrow> exit_promise result" where
  "handle_signal e = set_value 0 e"

subsection \<open>The HTTPS transport\<close>

definition curl_SendPayload ::
    "'w cpr_post \<Rightarrow> onion_payload \<Rightarrow> (bytes option \<Rightarrow> 'a result) \<Rightarrow> 'w \<Rightarrow> 'a result \<times> 'w" where
  "curl_SendPayload Post payload responseHandler w =
     (case Edge (path payload) of
        Inl err \<Rightarrow> (Inl err, w)
      | Inr edge \<Rightarrow>
          (case Post (HttpsDirect edge) (ciphertext payload) False w of
             ((status, body), w) \<Rightarrow>
               (if status = 200 then responseHandler (Some body) else responseHandler None, w)))"

subsection \<open>The parts of \<open>main\<close>\<close>

text \<open>The callback given to \<open>FetchAll\<close>: the remote it puts into its promise, and the list it stores.\<close>

definition store_nodes ::
    "'g draw \<Rightarrow> (ed25519_pubkey \<times> snode_info) list \<Rightarrow> path_selection \<Rightarrow> 'g \<Rightarrow>
     remote_resource option result \<times> path_selection \<times> 'g" where
  "store_nodes draw result s g =
     (if result = [] then (Inr None, s, g)
      else case pick_random_from draw Inr result g of
        (Inl err, g) \<Rightarrow> (Inl err, s, g)
      | (Inr found, g) \<Rightarrow> (Inr (Some (Remote_SNode (snd found))), StoreNodeList result s, g))"

text \<open>A SOGS server named on the command line replaces the remote; \<open>None\<close> is \<open>return 1\<close>.\<close>

definition remote_argument ::
    "oxenc \<Rightarrow> bytes list \<Rightarrow> remote_resource \<Rightarrow> remote_resource option result" where
  "remote_argument X argv rem =
     (if 2 < length argv
      then let hex_str = argv ! 2; onion0 = null_bytes 32
        in if length hex_str \<noteq> ox_to_hex_size X (length onion0) then Inr None
           else ebind (require (ox_is_hex X hex_str) (Undefined ''from_hex of text that is not hex'')) (\<lambda>_.
                ebind (write_at onion0 0 (ox_from_hex X hex_str)) (\<lambda>key.
                Inr (Some (Remote_SOGS \<lparr>sogs_protocol = sogs_https, sogs_onion = key,
                  sogs_hostname = argv ! 1, sogs_port = 443\<rparr>))))
      else Inr (Some rem))"

definition client_handler :: "'j json_lib \<Rightarrow> exit_promise \<Rightarrow> bytes option \<Rightarrow> exit_promise result" where
  "client_handler J e maybePlaintext =
     (case maybePlaintext of
        Some plaintext \<Rightarrow>
          ebind (or_throw (js_parse J plaintext) Json_Error) (\<lambda>json.
          ebind (case js_find J json (str ''body'') of
              None \<Rightarrow> Inr ()
            | Some body \<Rightarrow>
                ebind (or_throw (js_get_string J body) Json_Error) (\<lambda>s.
                ebind (or_throw (js_parse J s) Json_Error) (\<lambda>inner.
                ebind (json_dump J inner) (\<lambda>_. Inr ())))) (\<lambda>_.
          set_value 0 e))
      | None \<Rightarrow> set_value 1 e)"

definition user_pubkey :: bytes where
  "user_pubkey = str ''05fedcba9876543210fedcba9876543210fedcba9876543210fedcba9876543210''"

definition client_request :: "'j json_lib \<Rightarrow> 'j" where
  "client_request J = js_object J
     [(str ''method'', js_string J (str ''get_snodes_for_pubkey'')),
      (str ''ephemeral_key'', js_string J (drop 2 user_pubkey)),
      (str ''params'', js_object J [(str ''pubkey'', js_string J user_pubkey)])]"

definition sendOnion ::
    "('r, 'j) libs \<Rightarrow> 'r draw \<Rightarrow> snode_info placement \<Rightarrow> 'w cpr_post \<Rightarrow> remote_resource \<Rightarrow> 'j \<Rightarrow>
     path_selection \<Rightarrow> exit_promise \<Rightarrow> 'w \<Rightarrow> 'r \<Rightarrow> exit_promise result \<times> path_selection \<times> 'w \<times> 'r" where
  "sendOnion L draw place Post rem req s e w r =
     (case MaybeSelectHopsTo place draw rem s r of
        (Inl err, s, r) \<Rightarrow> (Inl err, s, w, r)
      | (Inr None, s, r) \<Rightarrow> (set_value 1 e, s, w, r)
      | (Inr (Some p), s, r) \<Rightarrow>
          (case sbind (lift (json_dump (lib_js L) req)) (\<lambda>text. maker_MakeOnion L OnionMaker_xchacha20 text p) r of
             (Inl err, r) \<Rightarrow> (Inl err, s, w, r)
           | (Inr payload, r) \<Rightarrow>
               (case Edge p of
                  Inl err \<Rightarrow> (Inl err, s, w, r)
                | Inr edge \<Rightarrow>
                    (case curl_SendPayload Post payload
                         (response_handler payload (client_handler (lib_js L) e) (set_value 1 e)) w of
                       (out, w) \<Rightarrow> (out, s, w, r)))))"

text \<open>
  \<open>main\<close>: \<open>ans\<close> is the far end of the fetcher's request, \<open>sig\<close> the state of the exit promise when the
  request is sent (set if a signal came before). A promise still empty at the end is a process
  that waits for a signal.
\<close>

definition seed_node :: bytes where
  "seed_node = str ''curve://public.loki.foundation:22027/3c157ed3c675f56280dc5d8b2f00b327b5865c127bf2c6c42becc3ca73d9132b''"

definition fetch_nodes ::
    "('r, 'j) libs \<Rightarrow> ('a, 'c, 'v) oxenmq \<Rightarrow> (ed25519_pubkey \<times> snode_info) placement \<Rightarrow> (nat \<Rightarrow> snode_info) \<Rightarrow>
     'r draw \<Rightarrow> ('c \<Rightarrow> bytes \<Rightarrow> bytes \<Rightarrow> bool \<times> bytes list) \<Rightarrow> consensus \<Rightarrow> 'v \<Rightarrow> 'r \<Rightarrow>
     (ed25519_pubkey \<times> snode_info) list result \<times> 'v \<times> 'r" where
  "fetch_nodes L M place mem draw ans c v r =
     (case FetchAll (lib_ox L) (lib_js L) M place mem draw (CreateNodeFetcher c) v r of
        (call, f, v, r) \<Rightarrow> (ebind call (settle ans), v, r))"

definition client_main ::
    "('r, 'j) libs \<Rightarrow> ('a, 'c, 'v) oxenmq \<Rightarrow> (ed25519_pubkey \<times> snode_info) placement \<Rightarrow> (nat \<Rightarrow> snode_info) \<Rightarrow>
     snode_info placement \<Rightarrow> 'r draw \<Rightarrow> ('c \<Rightarrow> bytes \<Rightarrow> bytes \<Rightarrow> bool \<times> bytes list) \<Rightarrow> 'w cpr_post \<Rightarrow>
     bytes list \<Rightarrow> exit_promise \<Rightarrow> 'v \<Rightarrow> 'w \<Rightarrow> 'r \<Rightarrow> exit_promise result" where
  "client_main L M place mem place' draw ans Post argv sig v w r =
     (case map_option (SeedNodes [seed_node]) Consensus_direct_oxenmq of
        None \<Rightarrow> Inl (Undefined ''null pointer'')
      | Some c \<Rightarrow>
          (case fetch_nodes L M place mem draw ans c v r of (nodes, v, r) \<Rightarrow>
           ebind nodes (\<lambda>nodes.
           case store_nodes draw nodes (CreatePathSelector c) r of (maybe, s, r) \<Rightarrow>
           ebind maybe (\<lambda>maybe.
           case maybe of
             None \<Rightarrow> Inr (Some 1)
           | Some rem \<Rightarrow>
               ebind (remote_argument (lib_ox L) argv rem) (\<lambda>maybe.
               case maybe of
                 None \<Rightarrow> Inr (Some 1)
               | Some rem \<Rightarrow>
                   fst (sendOnion L draw place' Post rem (client_request (lib_js L)) s sig w r))))))"

text \<open>
  The process with its signal handler, \<open>_handle_signal\<close>, run by \<open>n\<close> signals before \<open>main\<close> sets the exit
  promise and \<open>m\<close> after that, until it ends; what the handler throws nothing catches. It does not
  matter when exactly they come: \<open>main\<close> touches the promise at one point only.
\<close>

fun signals :: "nat \<Rightarrow> exit_promise \<Rightarrow> exit_promise result" where
  "signals 0 e = Inr e"
| "signals (Suc n) e = ebind (handle_signal e) (signals n)"

definition client_process ::
    "('r, 'j) libs \<Rightarrow> ('a, 'c, 'v) oxenmq \<Rightarrow> (ed25519_pubkey \<times> snode_info) placement \<Rightarrow> (nat \<Rightarrow> snode_info) \<Rightarrow>
     snode_info placement \<Rightarrow> 'r draw \<Rightarrow> ('c \<Rightarrow> bytes \<Rightarrow> bytes \<Rightarrow> bool \<times> bytes list) \<Rightarrow> 'w cpr_post \<Rightarrow>
     bytes list \<Rightarrow> nat \<Rightarrow> nat \<Rightarrow> 'v \<Rightarrow> 'w \<Rightarrow> 'r \<Rightarrow> exit_promise result" where
  "client_process L M place mem place' draw ans Post argv n m v w r =
     ebind (signals n None) (\<lambda>sig.
     ebind (client_main L M place mem place' draw ans Post argv sig v w r) (signals m))"

subsection \<open>Lemmas\<close>

interpretation curl: payload_transport
  "\<lambda>om w. curl_SendPayload Post om Inr w" "\<lambda>n body d w. fst (Post (HttpsDirect n) body False w) = (200, d)"
  for Post
  by unfold_locales (auto simp: curl_SendPayload_def split: prod.splits)

lemma curl_SendPayload_handler:
  "fst (curl_SendPayload Post om h w) = ebind (fst (curl_SendPayload Post om Inr w)) h"
  by (simp add: curl_SendPayload_def split: sum.splits prod.splits)

text \<open>The consensus of the client, and the nodes its fetcher hands over.\<close>

definition client_consensus :: consensus where
  "client_consensus = \<lparr>consensus_seeds = [seed_node]\<rparr>"

lemma client_consensus: "map_option (SeedNodes [seed_node]) Consensus_direct_oxenmq = Some client_consensus"
  by (simp add: Consensus_direct_oxenmq_def SeedNodes_def client_consensus_def)

lemma fetch_reply_parsed:
  assumes "fetch_reply X J place mem ok msgs = Inr nodes"
  shows "nodes = [] \<or> ParseNodeList X J place mem (msgs ! 1) = Inr nodes"
proof (cases "ParseNodeList X J place mem (msgs ! 1)")
  case (Inl err)
  then show ?thesis
    using assms(1) by (cases "catchable err") (auto simp: fetch_reply_def split: if_splits)
qed (use assms in \<open>auto simp: fetch_reply_def split: if_splits\<close>)

lemma fetch_nodes_parsed:
  assumes "fetch_nodes L M place mem draw ans c v r = (Inr nodes, v', r')"
  shows "nodes = [] \<or> (\<exists>data. ParseNodeList (lib_ox L) (lib_js L) place mem data = Inr nodes)"
proof -
  have "nodes = [] \<or> (\<exists>ok msgs. fetch_reply (lib_ox L) (lib_js L) place mem ok msgs = Inr nodes)"
    using assms(1)
    by (auto simp: fetch_nodes_def FetchAll_def ebind_eq_Inr split: prod.splits option.splits)
  then show ?thesis using fetch_reply_parsed by blast
qed

text \<open>The callback stores the list and picks its first node as the remote.\<close>

lemma store_nodes_picks:
  assumes "draw_ok draw" and "nodes \<noteq> []"
  obtains g' where "store_nodes draw nodes s g
    = (Inr (Some (Remote_SNode (snd (hd nodes)))), StoreNodeList nodes s, g')"
proof -
  obtain e g' where p: "pick_random_from draw Inr nodes g = (e, g')" by fastforce
  then have "e = Inr (hd nodes)"
    using pick_random_value [OF assms(1), of Inr nodes g] assms(2) by (cases nodes) auto
  with p that assms(2) show thesis by (simp add: store_nodes_def)
qed

text \<open>\<open>sendOnion\<close>, once the selector has nodes, is a post of the onion and its handler.\<close>

lemma sendOnion_posts:
  assumes "draw_ok draw" and "MaybeSelectHopsTo place draw rem s r = (Inr (Some p), s1, r1)"
    and "js_dump (lib_js L) req = Some req_text"
    and "maker_MakeOnion L OnionMaker_xchacha20 req_text p r1 = (Inr om, r2)" and "hops p \<noteq> []"
  shows "fst (sendOnion L draw place Post rem req s e w r) =
    fst (curl_SendPayload Post om (response_handler om (client_handler (lib_js L) e) (set_value 1 e)) w)"
proof -
  have "Edge p = Inr (hd (hops p))" using assms(5) by (cases "hops p") simp_all
  with assms show ?thesis
    by (simp add: sendOnion_def json_dump_def sbind_def lift_def split: prod.splits)
qed

text \<open>Whatever sets the exit promise finds it empty.\<close>

lemma set_value_eq_Inr [simp]: "set_value c e = Inr e' \<longleftrightarrow> e = None \<and> e' = Some c"
  by (auto simp: set_value_def split: option.splits)

lemma client_handler_eq_Inr:
  "client_handler J e m = Inr e' \<Longrightarrow> e = None \<and>
    (m = None \<and> e' = Some 1 \<or> (\<exists>answer. m = Some answer \<and> js_parse J answer \<noteq> None \<and> e' = Some 0))"
  by (auto simp: client_handler_def ebind_eq_Inr split: option.splits)

lemma sendOnion_eq_Inr:
  assumes "fst (sendOnion L draw place Post rem req s e w r) = Inr e'"
  shows "e = None \<and> (e' = Some 1 \<or> e' = Some 0 \<and>
    (\<exists>req_text p q payload n body answer. fst (maker_MakeOnion L OnionMaker_xchacha20 req_text p q) = Inr payload \<and>
       Edge (path payload) = Inr n \<and>
       fst (Post (HttpsDirect n) (ciphertext payload) False w) = (200, body) \<and>
       maybeDecryptResponse payload body = Inr (Some answer) \<and> js_parse (lib_js L) answer \<noteq> None))"
proof -
  let ?set = "set_value 1 e" and ?h = "client_handler (lib_js L) e"
  consider "?set = Inr e'"
    | req_text p q payload where "fst (maker_MakeOnion L OnionMaker_xchacha20 req_text p q) = Inr payload"
      and "fst (curl_SendPayload Post payload (response_handler payload ?h ?set) w) = Inr e'"
    using assms
    by (auto simp: sendOnion_def sbind_def lift_def json_dump_def
        split: prod.splits sum.splits option.splits) (metis fst_conv)
  then show ?thesis
  proof cases
    case 2
    then obtain n status body where n: "Edge (path payload) = Inr n"
        "fst (Post (HttpsDirect n) (ciphertext payload) False w) = (status, body)"
        "response_handler payload ?h ?set (if status = 200 then Some body else None) = Inr e'"
      by (auto simp: curl_SendPayload_def split: sum.splits prod.splits if_splits)
    show ?thesis
    proof (cases "status = 200")
      case True
      then obtain m where m: "maybeDecryptResponse payload body = Inr m" "?h m = Inr e'"
        using n(3) by (auto simp: response_handler_def MakeDecrypter_def ebind_eq_Inr)
      from client_handler_eq_Inr [OF m(2)] consider "e = None" "e' = Some 1"
        | answer where "e = None" "m = Some answer" "js_parse (lib_js L) answer \<noteq> None" "e' = Some 0"
        by blast
      then show ?thesis
        by cases (simp, use m(1) 2(1) n(1,2) True in blast)
    qed (use n(3) in \<open>simp add: response_handler_def\<close>)
  qed simp
qed

subsection \<open>Properties\<close>

text \<open>
  The network as the client relies on it: when a body can be taken apart along a path of known
  nodes, each naming the next, and the last one finds the request in it, then posting the body to
  the first one is answered, with status 200, by the last one's encryption of \<open>answer\<close>.
\<close>

definition network_answers ::
    "('r, 'j) libs \<Rightarrow> 'w cpr_post \<Rightarrow> (snode_info \<Rightarrow> x25519_keypair) \<Rightarrow> snode_info set \<Rightarrow> bytes \<Rightarrow> bytes \<Rightarrow> 'w \<Rightarrow> bool" where
  "network_answers L Post keys nodes request answer w \<longleftrightarrow>
     (\<forall>hs body junk. hs \<noteq> [] \<longrightarrow> set hs \<subseteq> nodes \<longrightarrow> distinct hs \<longrightarrow>
        peel_path L (map keys hs) body = Inr (map (\<lambda>n. key_hex (lib_ox L) (identity n)) (tl hs), junk) \<longrightarrow>
        junk_payload junk = request \<longrightarrow>
        (\<exists>q. \<forall>d q'. transformReply junk answer q = (Inr d, q') \<longrightarrow>
           fst (Post (HttpsDirect (hd hs)) body False w) = (200, d)))"

text \<open>The first path of a selector: some of the nodes stored, none twice.\<close>

lemma client_main_code:
  assumes "client_main L M place mem place' draw ans Post argv sig v w r = Inr e"
  shows "e = Some 1 \<or> (e = Some 0 \<and> sig = None \<and>
    (\<exists>req_text p q payload n body answer.
       fst (maker_MakeOnion L OnionMaker_xchacha20 req_text p q) = Inr payload \<and>
       Edge (path payload) = Inr n \<and>
       fst (Post (HttpsDirect n) (ciphertext payload) False w) = (200, body) \<and>
       maybeDecryptResponse payload body = Inr (Some answer) \<and> js_parse (lib_js L) answer \<noteq> None))"
proof -
  consider "e = Some 1"
    | rem s r' where "fst (sendOnion L draw place' Post rem (client_request (lib_js L)) s sig w r') = Inr e"
    using assms
    by (auto simp: client_main_def client_consensus ebind_eq_Inr case_prod_beta split: option.splits)
  then show ?thesis
  proof cases
    case 2
    from sendOnion_eq_Inr [OF this] show ?thesis by blast
  qed blast
qed

lemma signals_once: "signals n None = Inr sig \<Longrightarrow> n = 0 \<and> sig = None \<or> n = 1 \<and> sig = Some 0"
  by (cases n; cases "n - 1") (auto simp: handle_signal_def set_value_def)

lemma first_selection:
  assumes "draw_ok draw" and "snodelist s \<noteq> []" and "edges s = []"
    and "distinct (map (identity \<circ> snd) (snodelist s))"
  obtains p s' g' where "MaybeSelectHopsTo place draw rem s g = (Inr (Some p), s', g')"
    and "hops p \<noteq> []" and "length (hops p) \<le> 4" and "remote p = rem"
    and "distinct (hops p)" and "set (hops p) \<subseteq> snd ` set (snodelist s)"
proof -
  obtain h x xs s' g' where sel: "MaybeSelectHopsTo place draw rem s g
      = (Inr (Some \<lparr>hops = h # map snd xs, remote = rem\<rparr>), s', g')"
      and sub: "subseq (x # xs) (snodelist s)" and "length xs < 4"
      and "h = snd x \<and> edges s' = uset_insert place snode_eq (edges s) h \<or> h \<in> set (edges s) \<and> edges s' = edges s"
    by (rule select_cases [OF assms(1,2), of place rem g])
  then have h: "h # map snd xs = map snd (x # xs)" "length (h # map snd xs) \<le> 4"
    using assms(3) by auto
  have "distinct (map snd (snodelist s))"
    using assms(4) by (metis distinct_map map_map)
  then have "distinct (h # map snd xs)"
    unfolding h by (rule subseq_keeps_distinct [OF subseq_map [OF sub]])
  moreover have "set (h # map snd xs) \<subseteq> snd ` set (snodelist s)"
    unfolding h using subseq_subset [OF sub] by auto
  ultimately show thesis
    using that [OF sel] h(2) by simp
qed

text \<open>Sending over such a network calls the handler with the answer.\<close>

lemma sendOnion_answered:
  assumes "libs_ok L" and "draw_ok draw" and "snodelist s \<noteq> []" and "edges s = []"
    and "distinct (map (identity \<circ> snd) (snodelist s))"
    and "\<forall>(k, n) \<in> set (snodelist s). wt_snode n \<and> honest_keys (lib_na L) n (keys n)"
    and "js_dump (lib_js L) (remote_ControlData (lib_js L) rem) = Some control"
    and "js_dump (lib_js L) req = Some req_text"
    and "length req_text + length control + 5500 < 2 ^ 31" and "length answer + 1 < 2 ^ 31"
    and "network_answers L Post keys (snd ` set (snodelist s))
      (encode_size (lib_ox L) (length req_text) @ req_text @ control) answer w"
  shows "fst (sendOnion L draw place Post rem req s e w r) = client_handler (lib_js L) e (Some answer)"
proof -
  obtain p s1 r1 where sel: "MaybeSelectHopsTo place draw rem s r = (Inr (Some p), s1, r1)"
      and p: "hops p \<noteq> []" "length (hops p) \<le> 4" "remote p = rem" "distinct (hops p)"
        "set (hops p) \<subseteq> snd ` set (snodelist s)"
    using first_selection [OF assms(2-5)] by metis
  then have good: "\<forall>n \<in> set (hops p). wt_snode n \<and> honest_keys (lib_na L) n (keys n)"
    using assms(6) by fastforce
  have send: "sendable L p (map keys (hops p)) req_text control"
    by (rule honest_path_sendable [OF good p(1,2)]) (use assms(7,9) p(3) in simp_all)
  obtain om r2 dests junk where om: "maker_MakeOnion L OnionMaker_xchacha20 req_text p r1 = (Inr om, r2)"
      and peel: "peel_path L (map keys (hops p)) (ciphertext om) = Inr (dests, junk)"
      and dests: "dests = map (\<lambda>n. key_hex (lib_ox L) (identity n)) (tl (hops p))"
      and load: "junk_payload junk = encode_size (lib_ox L) (length req_text) @ req_text @ control"
      and reply: "\<And>q. \<exists>d q'. transformReply junk answer q = (Inr d, q')"
      and ans: "\<And>q d q'. transformReply junk answer q = (Inr d, q') \<Longrightarrow>
        fst (Post (HttpsDirect (hd (hops p))) (ciphertext om) False w) = (200, d) \<Longrightarrow>
        ebind (fst (curl_SendPayload Post om Inr w))
          (response_handler om (client_handler (lib_js L) e) (set_value 1 e))
        = client_handler (lib_js L) e (Some answer)"
    by (rule curl.request_answered [where Post = Post and handler = "client_handler (lib_js L) e" and
        unanswered = "set_value 1 e", OF assms(1) send _ assms(10), of OnionMaker_xchacha20 r1]) auto
  obtain q where "\<forall>d q'. transformReply junk answer q = (Inr d, q') \<longrightarrow>
      fst (Post (HttpsDirect (hd (hops p))) (ciphertext om) False w) = (200, d)"
    using assms(11) p(1,4,5) peel load unfolding network_answers_def dests by blast
  then obtain d q' where "transformReply junk answer q = (Inr d, q')"
      "fst (Post (HttpsDirect (hd (hops p))) (ciphertext om) False w) = (200, d)"
    using reply by blast
  then show ?thesis
    unfolding sendOnion_posts [OF assms(2) sel assms(8) om p(1)]
    by (subst curl_SendPayload_handler) (rule ans)
qed

lemma client_main_sends:
  assumes "fetch_nodes L M place mem draw ans client_consensus v r = (Inr nodes, v', r')"
    and "draw_ok draw" and "nodes \<noteq> []" and "length argv \<le> 2"
  obtains r2 where "client_main L M place mem place' draw ans Post argv sig v w r =
    fst (sendOnion L draw place' Post (Remote_SNode (snd (hd nodes))) (client_request (lib_js L))
      (StoreNodeList nodes new_PathSelection) sig w r2)"
proof -
  obtain r2 where "store_nodes draw nodes (CreatePathSelector client_consensus) r'
      = (Inr (Some (Remote_SNode (snd (hd nodes)))), StoreNodeList nodes new_PathSelection, r2)"
    using store_nodes_picks [OF assms(2,3)] by (metis CreatePathSelector_def)
  with that assms(1,4) show thesis
    by (simp add: client_main_def client_consensus remote_argument_def)
qed

lemma client_main_answered:
  assumes "libs_ok L" and "draw_ok draw" and "place_ok place" and "\<And>i. wt_snode (mem i)"
    and "fetch_nodes L M place mem draw ans client_consensus v r = (Inr nodes, v', r')"
    and "nodes \<noteq> []" and "length argv \<le> 2"
    and "\<forall>(k, n) \<in> set nodes. honest_keys (lib_na L) n (keys n)"
    and "js_dump (lib_js L) (snode_ControlData (lib_js L) (snd (hd nodes))) = Some control"
    and "js_dump (lib_js L) (client_request (lib_js L)) = Some req_text"
    and "length req_text + length control + 5500 < 2 ^ 31" and "length answer + 1 < 2 ^ 31"
    and "network_answers L Post keys (snd ` set nodes)
      (encode_size (lib_ox L) (length req_text) @ req_text @ control) answer w"
  shows "client_main L M place mem place' draw ans Post argv sig v w r
    = client_handler (lib_js L) sig (Some answer)"
proof -
  obtain r2 where main: "client_main L M place mem place' draw ans Post argv sig v w r =
      fst (sendOnion L draw place' Post (Remote_SNode (snd (hd nodes))) (client_request (lib_js L))
        (StoreNodeList nodes new_PathSelection) sig w r2)"
    using client_main_sends [OF assms(5,2,6,7)] .
  obtain data where parsed: "ParseNodeList (lib_ox L) (lib_js L) place mem data = Inr nodes"
    using fetch_nodes_parsed [OF assms(5)] assms(6) by blast
  have "\<forall>(k, n) \<in> set nodes. wt_snode n \<and> honest_keys (lib_na L) n (keys n)"
    using ParseNodeList_wt [OF parsed assms(3,4)] assms(8) by auto
  moreover have "js_dump (lib_js L) (remote_ControlData (lib_js L) (Remote_SNode (snd (hd nodes)))) = Some control"
    using assms(9) by simp
  ultimately show ?thesis
    unfolding main using assms(6,13) ParseNodeList_keyed(3) [OF parsed assms(3)]
    by (intro sendOnion_answered [OF assms(1,2) _ _ _ _ _ assms(10-12)])
      (simp_all add: StoreNodeList_def new_PathSelection_def)
qed

text \<open>
  An example network: one node, which publishes the public key of \<open>replicate 32 1\<close>, answers requests
  it can parse with the encryption of an empty json object.
\<close>

definition ref_answer :: bytes where
  "ref_answer = jenc (JObj [])"

definition ref_post :: "nat cpr_post" where
  "ref_post url body verify w =
     ((case peel_path ref_libs [ref_node_keys] body of
         Inl err \<Rightarrow> (400, [])
       | Inr (dests, junk) \<Rightarrow>
           (case fst (transformReply junk ref_answer 8) of Inl err \<Rightarrow> (500, []) | Inr d \<Rightarrow> (200, d))), Suc w)"

definition ref_ans :: "nat \<Rightarrow> bytes \<Rightarrow> bytes \<Rightarrow> bool \<times> bytes list" where
  "ref_ans c m body = (True, [str ''200'', jenc ref_list_json])"

lemma ref_network_answers:
  "network_answers ref_libs ref_post (\<lambda>n. ref_node_keys) {ref_node} request ref_answer w"
  unfolding network_answers_def
proof (intro allI impI)
  fix hs body and junk :: "nat junk"
  assume "hs \<noteq> []" "set hs \<subseteq> {ref_node}" "distinct hs"
  then have "hs = [ref_node]"
    by (metis distinct.simps(2) list.set_intros(1) neq_Nil_conv set_subset_Cons subset_singletonD
        empty_iff in_mono singletonD)
  moreover assume "peel_path ref_libs (map (\<lambda>n. ref_node_keys) hs) body
    = Inr (map (\<lambda>n. key_hex (lib_ox ref_libs) (identity n)) (tl hs), junk)"
  ultimately have "peel_path ref_libs [ref_node_keys] body = Inr ([], junk)" by simp
  then show "\<exists>q. \<forall>d q'. transformReply junk ref_answer q = (Inr d, q') \<longrightarrow>
      fst (ref_post (HttpsDirect (hd hs)) body False w) = (200, d)"
    by (intro exI [of _ 8]) (simp add: ref_post_def del: peel_path.simps)
qed

lemma ref_fetch_nodes:
  "\<exists>v r. fetch_nodes ref_libs ref_mq place_back (\<lambda>i. ref_node) (prng_draw ref_sodium) ref_ans client_consensus 0 0
    = (Inr [(identity ref_node, ref_node)], v, r)"
proof -
  let ?f = "CreateNodeFetcher client_consensus :: nat fetcher"
  have f: "conn ?f = None" "seeds ?f = [seed_node]"
    by (simp_all add: CreateNodeFetcher_def client_consensus_def)
  obtain e g where pick: "pick_random_from (prng_draw ref_sodium) (parse_address ref_mq) [seed_node] 0 = (e, g)"
    by fastforce
  then have "e = Inr seed_node"
    using pick_random_value [OF prng_draw_ok, of ref_sodium "parse_address ref_mq" "[seed_node]" 0]
    by (simp add: parse_address_def ref_mq_def seed_node_def str_def)
  with pick f have "ObtainConnection ref_mq (prng_draw ref_sodium) ?f 0 0 = (Inr (Some 0), ?f\<lparr>conn := Some 0\<rparr>, 1, g)"
    by (simp add: ObtainConnection_def) (simp add: ref_mq_def seed_node_def str_def)
  moreover have "fetch_reply ref_oxenc ref_json place_back (\<lambda>i. ref_node) True [str ''200'', jenc ref_list_json]
      = Inr [(identity ref_node, ref_node)]"
    by (simp add: fetch_reply_def ref_list_parse)
  moreover obtain body where "RPCBody ref_json = Inr body" using ref_RPCBody by blast
  ultimately show ?thesis
    by (simp add: fetch_nodes_def FetchAll_def ref_libs_simps ref_ans_def)
qed

lemma ref_client_facts:
  "wt_snode ref_node"
  "js_dump (lib_js ref_libs) (snode_ControlData (lib_js ref_libs) ref_node)
    = Some (jenc (snode_ControlData ref_json ref_node))"
  "js_dump (lib_js ref_libs) (client_request (lib_js ref_libs)) = Some (jenc (client_request ref_json))"
  "length (jenc (client_request ref_json)) + length (jenc (snode_ControlData ref_json ref_node)) + 5500 < 2 ^ 31"
  "length ref_answer + 1 < 2 ^ 31"
proof -
  show "wt_snode ref_node" by (simp add: wt_snode_def ref_node_def)
  show "js_dump (lib_js ref_libs) (snode_ControlData (lib_js ref_libs) ref_node)
      = Some (jenc (snode_ControlData ref_json ref_node))"
    "js_dump (lib_js ref_libs) (client_request (lib_js ref_libs)) = Some (jenc (client_request ref_json))"
    by (simp_all add: ref_libs_simps ref_json_def snode_ControlData_def client_request_def user_pubkey_def
        ascii_def str_def)
  show "length (jenc (client_request ref_json)) + length (jenc (snode_ControlData ref_json ref_node)) + 5500 < 2 ^ 31"
    "length ref_answer + 1 < 2 ^ 31"
    by (simp_all add: ref_json_def snode_ControlData_def client_request_def user_pubkey_def ref_answer_def str_def)
qed

lemma ref_handler: "client_handler (lib_js ref_libs) None (Some ref_answer) = Inr (Some 0)"
  unfolding client_handler_def ref_libs_simps ref_answer_def
  by (simp add: ref_parse_dump) (simp add: ref_json_def set_value_def)

text \<open>
  C5. The whole program: when the fetched node list is not empty, its nodes hold the secret keys of
  the onion keys they publish, and the network forwards and answers, then the client hands the
  answer of the last hop to its handler, and ends as the handler decides. Which path was drawn,
  how long it is and in which order the containers hold the nodes does not matter.
\<close>

theorem client_request_answered:
  assumes "libs_ok L" and "draw_ok draw" and "place_ok place" and "\<And>i. wt_snode (mem i)"
    and "fetch_nodes L M place mem draw ans client_consensus v r = (Inr nodes, v', r')"
    and "nodes \<noteq> []" and "length argv \<le> 2"
    and "\<forall>(k, n) \<in> set nodes. honest_keys (lib_na L) n (keys n)"
    and "js_dump (lib_js L) (snode_ControlData (lib_js L) (snd (hd nodes))) = Some control"
    and "js_dump (lib_js L) (client_request (lib_js L)) = Some req_text"
    and "length req_text + length control + 5500 < 2 ^ 31" and "length answer + 1 < 2 ^ 31"
    and "network_answers L Post keys (snd ` set nodes)
      (encode_size (lib_ox L) (length req_text) @ req_text @ control) answer w"
  shows "client_main L M place mem place' draw ans Post argv sig v w r
    = client_handler (lib_js L) sig (Some answer) \<and>
    (\<forall>json. js_parse (lib_js L) answer = Some json \<and> js_find (lib_js L) json (str ''body'') = None \<longrightarrow>
      client_main L M place mem place' draw ans Post argv sig v w r
        = (case sig of None \<Rightarrow> Inr (Some 0) | Some c \<Rightarrow> Inl Future_Error))"
  unfolding client_main_answered [OF assms]
  by (auto simp: client_handler_def set_value_def)

theorem client_request_answered_witness:
  "client_main ref_libs ref_mq place_back (\<lambda>i. ref_node) place_front (prng_draw ref_sodium) ref_ans ref_post
    [str ''onionrequest''] None 0 0 0 = Inr (Some 0)"
proof -
  obtain v r where fetch: "fetch_nodes ref_libs ref_mq place_back (\<lambda>i. ref_node) (prng_draw ref_sodium) ref_ans
      client_consensus 0 0 = (Inr [(identity ref_node, ref_node)], v, r)"
    using ref_fetch_nodes by blast
  have "client_main ref_libs ref_mq place_back (\<lambda>i. ref_node) place_front (prng_draw ref_sodium) ref_ans ref_post
      [str ''onionrequest''] None 0 0 0 = client_handler (lib_js ref_libs) None (Some ref_answer)"
    by (rule client_request_answered [OF ref_libs_ok prng_draw_ok place_ok_examples(2) ref_client_facts(1) fetch
          _ _ _ _ _ ref_client_facts(4,5), THEN conjunct1])
      (use ref_node_honest ref_client_facts(2,3) ref_network_answers in auto)
  then show ?thesis unfolding ref_handler .
qed

text \<open>
  C21. The exit code means what it says: whatever the network does, a run that ends with a code ends
  with 1 or 0, and with 0 only if no signal came before, the first hop of an onion the client made
  answered with status 200, and that answer decrypted to json.
\<close>

theorem client_exit_code:
  assumes "client_main L M place mem place' draw ans Post argv sig v w r = Inr e"
  shows "e = Some 1 \<or> (e = Some 0 \<and> sig = None \<and>
    (\<exists>req_text p q payload n body answer.
       fst (maker_MakeOnion L OnionMaker_xchacha20 req_text p q) = Inr payload \<and>
       Edge (path payload) = Inr n \<and>
       fst (Post (HttpsDirect n) (ciphertext payload) False w) = (200, body) \<and>
       maybeDecryptResponse payload body = Inr (Some answer) \<and> js_parse (lib_js L) answer \<noteq> None))"
  using assms by (rule client_main_code)

theorem client_exit_code_witness:
  "\<exists>req_text p q payload n body answer.
    fst (maker_MakeOnion ref_libs OnionMaker_xchacha20 req_text p q) = Inr payload \<and>
    Edge (path payload) = Inr n \<and>
    fst (ref_post (HttpsDirect n) (ciphertext payload) False 0) = (200, body) \<and>
    maybeDecryptResponse payload body = Inr (Some answer) \<and> js_parse (lib_js ref_libs) answer \<noteq> None"
proof -
  obtain v r where fetch: "fetch_nodes ref_libs ref_mq place_back (\<lambda>i. ref_node) (prng_draw ref_sodium) ref_ans
      client_consensus 0 0 = (Inr [(identity ref_node, ref_node)], v, r)"
    using ref_fetch_nodes by blast
  have "client_main ref_libs ref_mq place_back (\<lambda>i. ref_node) place_front (prng_draw ref_sodium) ref_ans ref_post
      [str ''onionrequest''] None 0 0 0 = client_handler (lib_js ref_libs) None (Some ref_answer)"
    by (rule client_main_answered [OF ref_libs_ok prng_draw_ok place_ok_examples(2) ref_client_facts(1) fetch
          _ _ _ _ _ ref_client_facts(4,5)])
      (use ref_node_honest ref_client_facts(2,3) ref_network_answers in auto)
  from client_exit_code [OF this [unfolded ref_handler]] show ?thesis by simp
qed

text \<open>
  The client's failures: an empty or failed node list ends it with code 1, and so does a server
  key on the command line that is not 64 characters long, before anything is sent.
\<close>

theorem client_failures:
  assumes "fetch_nodes L M place mem draw ans client_consensus v r = (Inr nodes, v', r')"
    and "hex_ok (lib_ox L)" and "draw_ok draw"
    and "nodes = [] \<or> 2 < length argv \<and> length (argv ! 2) \<noteq> 64"
  shows "client_main L M place mem place' draw ans Post argv sig v w r = Inr (Some 1)"
proof (cases "nodes = []")
  case True
  then show ?thesis using assms(1) by (simp add: client_main_def client_consensus store_nodes_def)
next
  case False
  obtain r2 where "store_nodes draw nodes (CreatePathSelector client_consensus) r'
      = (Inr (Some (Remote_SNode (snd (hd nodes)))), StoreNodeList nodes new_PathSelection, r2)"
    using store_nodes_picks [OF assms(3) False] by (metis CreatePathSelector_def)
  with False assms show ?thesis
    by (simp add: client_main_def client_consensus remote_argument_def hex_ok_def Let_def)
qed

theorem client_failures_witness:
  "client_main ref_libs ref_mq place_back (\<lambda>i. ref_node) place_front (prng_draw ref_sodium) ref_ans ref_post
    [str ''onionrequest'', str ''sogs'', str ''ab''] None 0 0 0 = Inr (Some 1)"
proof -
  obtain v r where fetch: "fetch_nodes ref_libs ref_mq place_back (\<lambda>i. ref_node) (prng_draw ref_sodium) ref_ans
      client_consensus 0 0 = (Inr [(identity ref_node, ref_node)], v, r)"
    using ref_fetch_nodes by blast
  show ?thesis
    by (rule client_failures [OF fetch _ prng_draw_ok]) (simp_all add: ref_libs_simps ref_oxenc_ok str_def)
qed

text \<open>
  A signal before the answer is handled does not end the client with code 0 but kills it: the
  promise the signal handler has set is set again, or an error comes first; no run that gets to
  sending ends with a code.
\<close>

theorem signal_while_sending:
  "\<exists>err. fst (sendOnion L draw place Post rem req s (Some c) w r) = Inl err"
proof (cases "fst (sendOnion L draw place Post rem req s (Some c) w r)")
  case (Inr e)
  from sendOnion_eq_Inr [OF this] show ?thesis by simp
qed blast

text \<open>
  The client cannot be ended with a signal the way its handler means it: a run with a signal never
  ends with code 0. It ends with an exception nothing catches, or with the code 1 of a \<open>main\<close> that
  gave up before it sent anything.
\<close>

theorem client_signals:
  assumes "client_process L M place mem place' draw ans Post argv n m v w r = Inr e" and "0 < n + m"
  shows "e = Some 1 \<and> n = 1 \<and> m = 0"
proof -
  obtain sig e1 where s: "signals n None = Inr sig"
      "client_main L M place mem place' draw ans Post argv sig v w r = Inr e1" "signals m e1 = Inr e"
    using assms(1) by (auto simp: client_process_def ebind_eq_Inr)
  have e1: "e1 = Some 1 \<or> e1 = Some 0 \<and> sig = None"
    using client_main_code [OF s(2)] by blast
  then have "m = 0" using s(3) by (cases m) (auto simp: handle_signal_def set_value_def)
  moreover from this assms(2) have "n = 1" "sig = Some 0"
    using s(1) signals_once [of n sig] by auto
  ultimately show ?thesis using e1 s(3) by auto
qed

theorem client_signals_witness:
  "\<not> (\<exists>e. client_process ref_libs ref_mq place_back (\<lambda>i. ref_node) place_front (prng_draw ref_sodium) ref_ans ref_post
    [str ''onionrequest''] 0 1 0 0 0 = Inr e)"
  using client_signals [where n = 0 and m = 1] by auto

end
