(* ===== verification/Ed_Group.thy ===== *)
theory Ed_Group
  imports Reference_Libs
begin

text \<open>
  What libsodium documents of the ed25519 group operations the signature code calls: scalars are
  little-endian numbers, taken modulo the group order where they are computed with; points are
  encodings of multiples of the base point, and the two encodings of a point and its negation
  differ in the top bit. \<open>ed_ok D pt\<close> is this contract, with \<open>pt n\<close> the encoding of \<open>n\<close> times the
  base point. The second half of the theory is an instance of it for examples.
\<close>

subsection \<open>Little-endian numbers\<close>

fun le_nat :: "bytes \<Rightarrow> nat" where
  "le_nat [] = 0"
| "le_nat (b # bs) = unat b + 256 * le_nat bs"

fun nat_le :: "nat \<Rightarrow> nat \<Rightarrow> bytes" where
  "nat_le 0 n = []"
| "nat_le (Suc k) n = word_of_nat (n mod 256) # nat_le k (n div 256)"

lemma length_nat_le [simp]: "length (nat_le k n) = k"
  by (induction k n rule: nat_le.induct) simp_all

lemma le_nat_append: "le_nat (xs @ ys) = le_nat xs + 256 ^ length xs * le_nat ys"
  by (induction xs) (simp_all add: algebra_simps)

lemma le_nat_less: "le_nat bs < 256 ^ length bs"
proof (induction bs)
  case (Cons b bs)
  have "unat b + 256 * le_nat bs < 256 * (le_nat bs + 1)" using unat_byte [of b] by simp
  also have "\<dots> \<le> 256 * 256 ^ length bs" using Cons by (intro mult_le_mono2) simp
  finally show ?case by simp
qed simp

lemma le_nat_nat_le: "le_nat (nat_le k n) = n mod 256 ^ k"
proof (induction k n rule: nat_le.induct)
  case (2 k n)
  have "n mod (256 * 256 ^ k) = 256 * (n div 256 mod 256 ^ k) + n mod 256"
    by (rule mod_mult2_eq)
  with 2 show ?case by (simp add: unat_of_nat)
qed simp

lemma nat_le_snoc: "nat_le (Suc k) n = nat_le k n @ [word_of_nat (n div 256 ^ k mod 256)]"
  by (induction k arbitrary: n) (simp_all add: div_mult2_eq)

lemma nat_le_mod: "nat_le k (n mod 256 ^ k) = nat_le k n"
proof (induction k n rule: nat_le.induct)
  case (2 k n)
  have "n mod (256 * 256 ^ k) = 256 * (n div 256 mod 256 ^ k) + n mod 256"
    by (rule mod_mult2_eq)
  with 2 show ?case by simp
qed simp

text \<open>The last of the 32 bytes of a scalar, and the ends of one.\<close>

lemma scalar_ends:
  assumes "length s = 32"
  obtains b0 mid b31 where "s = b0 # mid @ [b31]" and "length mid = 30"
proof -
  obtain b0 t where s: "s = b0 # t" "length t = 31" using assms by (cases s) auto
  then obtain mid b31 where "t = mid @ [b31]" "length mid = 30"
    by (cases t rule: rev_cases) auto
  with s(1) that show ?thesis by blast
qed

lemma le_nat_ends:
  "length mid = 30 \<Longrightarrow> le_nat (b0 # mid @ [b31]) = unat b0 + 256 * le_nat mid + 256 ^ 31 * unat b31"
  by (simp add: le_nat_append)

lemma top_byte_small:
  assumes "length s = 32" and "le_nat s < 2 ^ 255"
  shows "s ! 31 < 128"
proof -
  obtain b0 mid b31 where s: "s = b0 # mid @ [b31]" "length mid = 30"
    using scalar_ends [OF assms(1)] .
  have "256 ^ 31 * unat b31 \<le> le_nat s"
    unfolding s(1) le_nat_ends [OF s(2)] by simp
  also have "\<dots> < 256 ^ 31 * 128" using assms(2) by simp
  finally have "unat b31 < 128" by simp
  then have "b31 < 128" by (simp add: word_less_nat_alt)
  then show ?thesis using s by (simp add: nth_append)
qed

subsection \<open>The contract\<close>

definition ed_order :: nat where
  "ed_order = 2 ^ 252 + 27742317777372353535851937790883648493"

definition ed_scalars_ok :: "ed25519 \<Rightarrow> bool" where
  "ed_scalars_ok D \<longleftrightarrow>
     (\<forall>s. length s = 64 \<longrightarrow> length (ed_scalar_reduce D s) = 32 \<and>
        le_nat (ed_scalar_reduce D s) = le_nat s mod ed_order) \<and>
     (\<forall>a b. length a = 32 \<longrightarrow> length b = 32 \<longrightarrow>
        length (ed_scalar_mul D a b) = 32 \<and>
        le_nat (ed_scalar_mul D a b) = le_nat a * le_nat b mod ed_order \<and>
        length (ed_scalar_add D a b) = 32 \<and>
        le_nat (ed_scalar_add D a b) = (le_nat a + le_nat b) mod ed_order \<and>
        length (ed_scalar_sub D a b) = 32 \<and>
        le_nat (ed_scalar_sub D a b) = (le_nat a + (ed_order - le_nat b mod ed_order)) mod ed_order) \<and>
     (\<forall>a. length a = 32 \<longrightarrow> length (ed_scalar_negate D a) = 32 \<and>
        le_nat (ed_scalar_negate D a) = (ed_order - le_nat a mod ed_order) mod ed_order)"

text \<open>
  Multiplication without clamping ignores the top bit of a scalar, so it is specified for scalars
  that have it clear; its return code reports a neutral result. The clamping multiplication is
  specified on scalars that are clamped already.
\<close>

definition clamped :: "bytes \<Rightarrow> bool" where
  "clamped s \<longleftrightarrow> length s = 32 \<and> s ! 0 AND 7 = 0 \<and> s ! 31 AND 192 = 64"

definition ed_points_ok :: "ed25519 \<Rightarrow> (nat \<Rightarrow> bytes) \<Rightarrow> bool" where
  "ed_points_ok D pt \<longleftrightarrow>
     (\<forall>n. length (pt n) = 32 \<and> pt (n mod ed_order) = pt n) \<and>
     (\<forall>n. n mod ed_order \<noteq> 0 \<longrightarrow>
        pt (ed_order - n mod ed_order) = (pt n)[31 := pt n ! 31 XOR 128]) \<and>
     (\<forall>s. length s = 32 \<longrightarrow> s ! 31 < 128 \<longrightarrow>
        ed_base_noclamp D s = (le_nat s mod ed_order \<noteq> 0, pt (le_nat s)) \<and>
        (\<forall>n. n mod ed_order \<noteq> 0 \<longrightarrow>
           ed_noclamp D s (pt n) = (le_nat s * n mod ed_order \<noteq> 0, pt (le_nat s * n)))) \<and>
     (\<forall>s. clamped s \<longrightarrow> ed_base D s = (True, pt (le_nat s))) \<and>
     (\<forall>m n. ed_add D (pt m) (pt n) = (True, pt (m + n))) \<and>
     (\<forall>n. ed_is_valid_point D (pt n) \<longleftrightarrow> n mod ed_order \<noteq> 0)"

definition ed_ok :: "ed25519 \<Rightarrow> (nat \<Rightarrow> bytes) \<Rightarrow> bool" where
  "ed_ok D pt \<longleftrightarrow> ed_scalars_ok D \<and> ed_points_ok D pt"

subsection \<open>Consequences\<close>

lemma ed_reduceD:
  assumes "ed_scalars_ok D" and "length s = 64"
  shows "length (ed_scalar_reduce D s) = 32" "le_nat (ed_scalar_reduce D s) = le_nat s mod ed_order"
  using assms by (simp_all add: ed_scalars_ok_def)

lemma ed_scalarD:
  assumes "ed_scalars_ok D" and "length a = 32" and "length b = 32"
  shows "length (ed_scalar_mul D a b) = 32" "le_nat (ed_scalar_mul D a b) = le_nat a * le_nat b mod ed_order"
    "length (ed_scalar_add D a b) = 32" "le_nat (ed_scalar_add D a b) = (le_nat a + le_nat b) mod ed_order"
    "length (ed_scalar_sub D a b) = 32"
    "le_nat (ed_scalar_sub D a b) = (le_nat a + (ed_order - le_nat b mod ed_order)) mod ed_order"
    "length (ed_scalar_negate D a) = 32"
    "le_nat (ed_scalar_negate D a) = (ed_order - le_nat a mod ed_order) mod ed_order"
  using assms by (simp_all add: ed_scalars_ok_def)

lemma ed_pointD:
  assumes "ed_points_ok D pt"
  shows "length (pt n) = 32" "pt (n mod ed_order) = pt n"
    "n mod ed_order \<noteq> 0 \<Longrightarrow> pt (ed_order - n mod ed_order) = (pt n)[31 := pt n ! 31 XOR 128]"
    "length s = 32 \<Longrightarrow> s ! 31 < 128 \<Longrightarrow> ed_base_noclamp D s = (le_nat s mod ed_order \<noteq> 0, pt (le_nat s))"
    "length s = 32 \<Longrightarrow> s ! 31 < 128 \<Longrightarrow> n mod ed_order \<noteq> 0 \<Longrightarrow>
      ed_noclamp D s (pt n) = (le_nat s * n mod ed_order \<noteq> 0, pt (le_nat s * n))"
    "clamped s \<Longrightarrow> ed_base D s = (True, pt (le_nat s))"
    "ed_add D (pt m) (pt n) = (True, pt (m + n))"
    "ed_is_valid_point D (pt n) \<longleftrightarrow> n mod ed_order \<noteq> 0"
  using assms unfolding ed_points_ok_def by blast+

lemma ed_order_less: "ed_order < 2 ^ 255" "0 < ed_order" "2 ^ 252 < ed_order"
  by (simp_all add: ed_order_def)

text \<open>
  A clamped scalar is a multiple of 8 in [2^254, 2^255); the order is odd and above 2^252, so such a
  scalar is never a multiple of it.
\<close>

lemma not_multiple_of_order:
  assumes "n mod 8 = 0" and "2 ^ 254 \<le> n" and "n < 2 ^ 255"
  shows "n mod ed_order \<noteq> 0"
proof
  assume "n mod ed_order = 0"
  then obtain k where k: "n = ed_order * k" by (auto elim: dvdE)
  then have "k < 8" using assms(3) by (cases "k < 8") (simp_all add: ed_order_def)
  moreover have "(5 * k) mod 8 = 0"
  proof -
    have "ed_order mod 8 = 5" by (simp add: ed_order_def)
    then show ?thesis using assms(1) k by (metis mod_mult_left_eq)
  qed
  ultimately have "k = 0" by presburger
  then show False using k assms(2) by simp
qed

lemma byte_and_7: "b AND 7 = 0 \<Longrightarrow> unat (b :: byte) mod 8 = 0"
proof -
  assume "b AND 7 = 0"
  moreover have "take_bit 3 b = b AND 7" by (simp add: take_bit_eq_mask mask_numeral)
  ultimately have "take_bit 3 b = 0" by simp
  then have "take_bit 3 (unat b) = 0"
    by (metis (no_types) unat_0 unsigned_take_bit_eq)
  then show ?thesis by (simp add: take_bit_eq_mod)
qed

lemma byte_and_192:
  assumes "b AND 192 = 64"
  shows "64 \<le> unat (b :: byte) \<and> unat b < 128"
proof -
  have "unat b AND 192 = 64"
    using arg_cong [OF assms, of unat] by (simp add: unsigned_and_eq)
  then have "drop_bit 6 (unat b) AND drop_bit 6 192 = drop_bit 6 64"
    by (metis drop_bit_and)
  then have "take_bit 2 (drop_bit 6 (unat b)) = 1"
    by (simp add: take_bit_eq_mask mask_eq_exp_minus_1)
  then have "unat b div 64 mod 4 = 1"
    by (simp add: take_bit_eq_mod drop_bit_eq_div)
  moreover have "unat b div 64 < 4" using unat_byte [of b] by (simp add: less_mult_imp_div_less)
  ultimately have "unat b div 64 = 1" by simp
  then show ?thesis using div_mult_mod_eq [of "unat b" 64] mod_less_divisor [of 64 "unat b"] by linarith
qed

lemma clamped_bounds:
  assumes "clamped s"
  shows "le_nat s mod 8 = 0" "2 ^ 254 \<le> le_nat s" "le_nat s < 2 ^ 255" "s ! 31 < 128"
proof -
  obtain b0 mid b31 where s: "s = b0 # mid @ [b31]" "length mid = 30"
    using scalar_ends assms unfolding clamped_def by metis
  have le: "le_nat s = unat b0 + 256 * le_nat mid + 256 ^ 31 * unat b31"
    unfolding s(1) using s(2) by (rule le_nat_ends)
  have b0: "unat b0 mod 8 = 0" using assms s by (intro byte_and_7) (simp add: clamped_def)
  have b31: "64 \<le> unat b31 \<and> unat b31 < 128"
    using assms s by (intro byte_and_192) (simp add: clamped_def nth_append)
  have mid: "le_nat mid < 256 ^ 30" using le_nat_less [of mid] s(2) by simp
  have "8 dvd unat b0 + 256 * le_nat mid + 256 ^ 31 * unat b31"
    using b0 by (intro dvd_add dvd_mult2) auto
  then show "le_nat s mod 8 = 0" unfolding le by simp
  show "2 ^ 254 \<le> le_nat s" unfolding le using b31 by simp
  have "unat b0 + 256 * le_nat mid < 256 ^ 31" using mid unat_byte [of b0] by simp
  then show less: "le_nat s < 2 ^ 255" unfolding le using b31 by simp
  show "s ! 31 < 128" using top_byte_small assms less by (simp add: clamped_def)
qed

lemma clamped_not_multiple: "clamped s \<Longrightarrow> le_nat s mod ed_order \<noteq> 0"
  using clamped_bounds by (intro not_multiple_of_order) auto

lemma reduced_top_byte:
  assumes "length s = 32" and "le_nat s = n mod ed_order"
  shows "s ! 31 < 128"
proof (rule top_byte_small [OF assms(1)])
  have "n mod ed_order < ed_order" using ed_order_less(2) by simp
  then show "le_nat s < 2 ^ 255" using assms(2) ed_order_less(1) by linarith
qed

lemma pt_cong:
  assumes "ed_points_ok D pt" and "m mod ed_order = n mod ed_order"
  shows "pt m = pt n"
  using assms unfolding ed_points_ok_def by metis

subsection \<open>An instance\<close>

text \<open>
  The integers modulo the group order in place of the curve: a point is its multiple, written as
  the smaller of the number and its negation with the sign in the top bit.
\<close>

definition ref_pt :: "nat \<Rightarrow> bytes" where
  "ref_pt n =
     (let m = n mod ed_order in
      if m \<le> ed_order div 2 then nat_le 32 m
      else (nat_le 32 (ed_order - m))[31 := nat_le 32 (ed_order - m) ! 31 XOR 128])"

definition ref_unpt :: "bytes \<Rightarrow> nat" where
  "ref_unpt p =
     (if p ! 31 < 128 then le_nat p
      else (ed_order - le_nat (p[31 := p ! 31 XOR 128])) mod ed_order)"

definition ref_ed :: ed25519 where
  "ref_ed = \<lparr>
     ed_base_noclamp = (\<lambda>s. (le_nat s mod ed_order \<noteq> 0, ref_pt (le_nat s))),
     ed_base = (\<lambda>s. (True, ref_pt (le_nat s))),
     ed_noclamp = (\<lambda>s p. (le_nat s * ref_unpt p mod ed_order \<noteq> 0, ref_pt (le_nat s * ref_unpt p))),
     ed_add = (\<lambda>p q. (True, ref_pt (ref_unpt p + ref_unpt q))),
     ed_is_valid_point = (\<lambda>p. ref_unpt p mod ed_order \<noteq> 0),
     ed_scalar_reduce = (\<lambda>s. nat_le 32 (le_nat s mod ed_order)),
     ed_scalar_mul = (\<lambda>a b. nat_le 32 (le_nat a * le_nat b mod ed_order)),
     ed_scalar_add = (\<lambda>a b. nat_le 32 ((le_nat a + le_nat b) mod ed_order)),
     ed_scalar_sub = (\<lambda>a b. nat_le 32 ((le_nat a + (ed_order - le_nat b mod ed_order)) mod ed_order)),
     ed_scalar_negate = (\<lambda>a. nat_le 32 ((ed_order - le_nat a mod ed_order) mod ed_order)),
     ed_sk_to_pk = (\<lambda>sk. drop 32 sk)\<rparr>"

lemma le_nat_32: "n < 2 ^ 255 \<Longrightarrow> le_nat (nat_le 32 n) = n"
  by (simp add: le_nat_nat_le)

lemma nat_le_32_top: "n < 2 ^ 255 \<Longrightarrow> nat_le 32 n ! 31 < 128"
  by (intro top_byte_small) (simp_all add: le_nat_32)

lemma byte_xor_128:
  shows "b < 128 \<Longrightarrow> \<not> b XOR 128 < (128 :: byte)" and "(b XOR 128) XOR 128 = (b :: byte)"
proof -
  assume "b < 128"
  then have less: "unat b < 128" by (simp add: word_less_nat_alt)
  have "unat b AND 128 = take_bit 7 (unat b) AND 128"
    using less by (simp add: take_bit_eq_mod)
  also have "\<dots> = unat b AND (mask 7 AND 128)"
    by (simp add: take_bit_eq_mask and.assoc)
  also have "\<dots> = 0" by (simp add: mask_eq_exp_minus_1)
  finally have "unat b XOR 128 = unat b + 128"
    by (simp add: disjunctive_add_eq_xor)
  then have "unat (b XOR 128) = unat b + 128"
    by (simp add: unsigned_xor_eq)
  then show "\<not> b XOR 128 < 128" by (simp add: word_less_nat_alt)
qed (simp add: xor.assoc)

lemma ref_unpt_pt: "ref_unpt (ref_pt n) = n mod ed_order"
proof -
  let ?m = "n mod ed_order"
  have m: "?m < ed_order" using ed_order_less(2) by simp
  then have bound: "?m < 2 ^ 255" "ed_order - ?m < 2 ^ 255"
    using ed_order_less(1) by linarith+
  show ?thesis
  proof (cases "?m \<le> ed_order div 2")
    case True
    then show ?thesis
      using bound by (simp add: ref_pt_def ref_unpt_def nat_le_32_top le_nat_32)
  next
    case False
    let ?s = "nat_le 32 (ed_order - ?m)"
    have "\<not> (?s ! 31 XOR 128) < 128" using byte_xor_128(1) nat_le_32_top [OF bound(2)] by blast
    moreover have "?s[31 := ?s ! 31 XOR 128, 31 := (?s ! 31 XOR 128) XOR 128] = ?s"
      by (simp add: byte_xor_128(2))
    ultimately have "ref_unpt (ref_pt n) = (ed_order - le_nat ?s) mod ed_order"
      using False by (simp add: ref_pt_def ref_unpt_def Let_def)
    then show ?thesis using m bound(2) by (simp add: le_nat_32)
  qed
qed

lemma ref_pt_facts:
  "length (ref_pt n) = 32" "ref_pt (n mod ed_order) = ref_pt n"
  "m mod ed_order = n mod ed_order \<Longrightarrow> ref_pt m = ref_pt n"
  by (simp_all add: ref_pt_def Let_def)

lemma half_sign: "k mod 2 = 1 \<Longrightarrow> m < k \<Longrightarrow> k - m \<le> k div 2 \<longleftrightarrow> \<not> m \<le> k div (2 :: nat)"
  by presburger

lemma ref_pt_negate:
  assumes "n mod ed_order \<noteq> 0"
  shows "ref_pt (ed_order - n mod ed_order) = (ref_pt n)[31 := ref_pt n ! 31 XOR 128]"
proof -
  let ?m = "n mod ed_order"
  have m: "?m < ed_order" using ed_order_less(2) by simp
  then have "(ed_order - ?m) mod ed_order = ed_order - ?m" using assms by simp
  moreover have "ed_order mod 2 = 1" by (simp add: ed_order_def)
  then have "ed_order - ?m \<le> ed_order div 2 \<longleftrightarrow> \<not> ?m \<le> ed_order div 2"
    using m half_sign by blast
  ultimately show ?thesis
    using m by (auto simp: ref_pt_def Let_def byte_xor_128(2))
qed

lemma ref_ed_ok: "ed_ok ref_ed ref_pt"
proof -
  have "n mod ed_order < 2 ^ 256" for n
    by (rule less_trans [OF mod_less_divisor [OF ed_order_less(2)]]) (simp add: ed_order_def)
  then have "ed_scalars_ok ref_ed"
    by (simp add: ed_scalars_ok_def ref_ed_def le_nat_nat_le)
  moreover have "ed_points_ok ref_ed ref_pt"
    unfolding ed_points_ok_def
    by (auto simp: ref_pt_facts(1,2) ref_pt_negate ref_ed_def ref_unpt_pt mod_simps intro!: ref_pt_facts(3))
  ultimately show ?thesis by (simp add: ed_ok_def)
qed

end
