(* ===== verification/Signature.thy ===== *)
theory Signature
  imports Key_Types Ed_Group
begin

text \<open>
  onionreq/signature.hpp and signature.cpp: Monero-style signatures. \<open>cn_fast_hash\<close>, which hashes the
  challenge, is a stub that aborts; the theory says what is left of signing and checking over it.
\<close>

type_synonym hash = bytes
type_synonym ec_scalar = bytes
type_synonym ec_point = bytes

record signature =
  sig_c :: ec_scalar
  sig_r :: ec_scalar

text \<open>The second argument of \<open>cn_fast_hash\<close> is the buffer the hash is to be written to.\<close>

definition cn_fast_hash :: "bytes \<Rightarrow> bytes \<Rightarrow> bytes result" where
  "cn_fast_hash input out = Inl Aborted"

definition monero_hash_to_scalar :: "ed25519 \<Rightarrow> bytes \<Rightarrow> ec_scalar result" where
  "monero_hash_to_scalar D input =
     (let hash = replicate 64 0
      in ebind (cn_fast_hash input hash) (\<lambda>hash.
         Inr (ed_scalar_reduce D hash)))"

definition hash_data :: "'r sodium \<Rightarrow> bytes \<Rightarrow> hash" where
  "hash_data N data = na_generichash N 32 [] [data]"

definition concatenate :: "bytes list \<Rightarrow> bytes" where
  "concatenate vs = concat vs"

definition hash_concatenate :: "'r sodium \<Rightarrow> nat \<Rightarrow> bytes list \<Rightarrow> bytes" where
  "hash_concatenate N n vs = na_generichash N n [] vs"

definition clamp :: "ec_scalar \<Rightarrow> ec_scalar" where
  "clamp s =
     (let s = s[0 := s ! 0 AND 248];
          s = s[31 := s ! 31 AND 63]
      in s[31 := s ! 31 OR 64])"

definition generate_signature ::
    "'r sodium \<Rightarrow> ed25519 \<Rightarrow> hash \<Rightarrow> legacy_keypair \<Rightarrow> signature result" where
  "generate_signature N D prefix_hash keys =
     (let (pubkey, seckey) = keys;
          tmp = na_generichash N 32 [] [seckey];
          xH = hash_concatenate N 64 [tmp, pubkey, prefix_hash];
          x = clamp (ed_scalar_reduce D xH);
          X = snd (ed_base_noclamp D x);
          M_A_X = concatenate [prefix_hash, pubkey, X]
      in ebind (monero_hash_to_scalar D M_A_X) (\<lambda>c.
         let r = ed_scalar_mul D seckey c;
             r = ed_scalar_sub D x r
         in Inr \<lparr>sig_c = c, sig_r = r\<rparr>))"

definition check_signature :: "ed25519 \<Rightarrow> signature \<Rightarrow> hash \<Rightarrow> legacy_pubkey \<Rightarrow> bool result" where
  "check_signature D sig prefix_hash pub =
     (case ed_base_noclamp D (sig_r sig) of (ok, X) \<Rightarrow>
      if \<not> ok then Inr False
      else case ed_noclamp D (sig_c sig) pub of (ok, cA) \<Rightarrow>
      if \<not> ok then Inr False
      else case ed_add D X cA of (ok, X) \<Rightarrow>
      if \<not> ok then Inr False
      else if \<not> ed_is_valid_point D X then Inr False
      else ebind (monero_hash_to_scalar D (concatenate [prefix_hash, pub, X])) (\<lambda>expected_c.
           Inr (expected_c = sig_c sig)))"

text \<open>\<open>signature::from_base64\<close>; \<open>mem\<close> is the uninitialised \<open>signature\<close>, 64 bytes.\<close>

definition signature_from_base64 :: "oxenc \<Rightarrow> bytes \<Rightarrow> bytes \<Rightarrow> signature result" where
  "signature_from_base64 X mem s =
     ebind (require (ox_is_base64 X s)
       (Runtime_Error (str ''Invalid data: not base64-encoded''))) (\<lambda>_.
     ebind (require (length s = 86 \<or> length s = 88 \<and> drop 86 s = str ''=='')
       (Runtime_Error (str ''Invalid data: b64 data size does not match signature size''))) (\<lambda>_.
     ebind (write_at mem 0 (ox_from_base64 X s)) (\<lambda>sig.
     Inr \<lparr>sig_c = take 32 sig, sig_r = drop 32 sig\<rparr>)))"

subsection \<open>Lemmas\<close>

lemma clamp_ends:
  "length mid = 30 \<Longrightarrow> clamp (b0 # mid @ [b31]) = (b0 AND 248) # mid @ [b31 AND 63 OR 64]"
  by (simp add: clamp_def nth_append list_update_append)

lemma clamped_clamp:
  assumes "length s = 32"
  shows "clamped (clamp s)"
proof -
  obtain b0 mid b31 where s: "s = b0 # mid @ [b31]" "length mid = 30"
    using scalar_ends [OF assms] .
  have "(b0 AND 248) AND 7 = 0" by (simp add: and.assoc)
  moreover have "(b31 AND 63 OR 64) AND 192 = 64"
    by (simp add: bit.conj_disj_distrib2 and.assoc)
  ultimately show ?thesis using s by (simp add: clamp_ends clamped_def nth_append)
qed

lemma monero_hash [simp]: "monero_hash_to_scalar D m = Inl Aborted"
  by (simp add: monero_hash_to_scalar_def cn_fast_hash_def)

lemma b64_unpadded_two: "b64_unpadded_length (t @ [61, 61]) \<le> length t"
  by (simp add: b64_unpadded_length_def Let_def)

lemma base64_signature_length:
  assumes "base64_ok X" and "ox_is_base64 X s" and "length s = 86 \<or> length s = 88 \<and> drop 86 s = str ''==''"
  shows "length (ox_from_base64 X s) \<le> 64"
proof -
  have "b64_unpadded_length s \<le> 86"
  proof (cases "length s = 86")
    case True
    then show ?thesis using b64_unpadded_bounds [of s] by simp
  next
    case False
    then have "s = take 86 s @ [61, 61]" "length (take 86 s) = 86"
      using assms(3) append_take_drop_id [of 86 s] by (auto simp: str_def)
    then show ?thesis
      by (metis (no_types) b64_unpadded_two)
  qed
  then show ?thesis using assms(1,2) by (simp add: base64_ok_def)
qed

subsection \<open>Properties\<close>

text \<open>
  \<open>clamp\<close> yields a scalar that is a multiple of 8 in [2^254, 2^255), never a multiple of the group
  order, and changes nothing else: bits 0 to 2 and 254, 255 apart, the scalar is unchanged.
\<close>

theorem clamp_range:
  assumes "length s = 32"
  shows "le_nat (clamp s) mod 8 = 0 \<and> 2 ^ 254 \<le> le_nat (clamp s) \<and> le_nat (clamp s) < 2 ^ 255 \<and>
    le_nat (clamp s) mod ed_order \<noteq> 0 \<and> (\<forall>i. 0 < i \<and> i < 31 \<longrightarrow> clamp s ! i = s ! i)"
  using clamped_bounds [OF clamped_clamp [OF assms]] clamped_not_multiple [OF clamped_clamp [OF assms]]
  by (simp add: clamp_def Let_def)

theorem clamp_range_witness:
  "le_nat (clamp (replicate 32 255)) mod 8 = 0 \<and> 2 ^ 254 \<le> le_nat (clamp (replicate 32 255))"
  using clamp_range [of "replicate 32 255"] by simp



text \<open>
  \<open>signature::from_base64\<close> never writes past the 64 bytes of a signature: it throws, or yields
  two scalars; the two accepted lengths with a full decoding give exactly its two halves.
\<close>

theorem signature_from_base64_safe:
  assumes "base64_ok X" and "length mem = 64"
  shows "is_defined (signature_from_base64 X mem s) \<and>
    (\<forall>sig. signature_from_base64 X mem s = Inr sig \<longrightarrow> length (sig_c sig) = 32 \<and> length (sig_r sig) = 32 \<and>
      (length (ox_from_base64 X s) = 64 \<longrightarrow> sig_c sig @ sig_r sig = ox_from_base64 X s))"
  using base64_signature_length [OF assms(1), of s] assms(2)
  by (auto simp: signature_from_base64_def require_def write_at_def min_def)

theorem signature_from_base64_safe_witness:
  "is_defined (signature_from_base64 ref_oxenc (replicate 64 9) (replicate 86 65))"
  using signature_from_base64_safe [OF ref_oxenc_ok(2), of "replicate 64 9" "replicate 86 65"] by simp

end
