(* ===== verification/Evp_Context.thy ===== *)
theory Evp_Context
  imports Channel_Encryption
begin

text \<open>
  onionreq/channel_encryption.cpp again, with OpenSSL's cipher contexts as objects: allocated by
  \<open>EVP_CIPHER_CTX_new\<close>, used through a pointer by one call after the other, and freed by the deleter
  of the \<open>unique_ptr\<close> that owns them, when its scope is left by a return or by an exception. What a
  call yields is that of the parameter \<open>openssl\<close>; here is which calls are made on which context in which
  order. Which address a new context gets, if any, is a parameter, \<open>new\<close>.
\<close>

subsection \<open>Contexts\<close>

text \<open>What the calls made so far have told a context. After a call that failed it serves for nothing.\<close>

datatype evp_ctx =
    Ctx_New
  | Ctx_Encrypt evp_cipher bytes bytes
  | Ctx_Encrypted evp_cipher bytes bytes bytes int
  | Ctx_Sealed evp_cipher bytes bytes bytes int
  | Ctx_Decrypt evp_cipher bytes bytes
  | Ctx_Decrypted evp_cipher bytes bytes bytes int "bytes option"
  | Ctx_Opened
  | Ctx_Failed

datatype evp_op =
    EncryptInit evp_cipher bytes bytes
  | EncryptUpdate bytes int
  | EncryptFinal
  | GetTag nat
  | DecryptInit evp_cipher bytes bytes
  | DecryptUpdate bytes int
  | SetTag nat bytes
  | DecryptFinal

type_synonym evp_heap = "nat \<rightharpoonup> evp_ctx"

text \<open>
  The output of a call, \<open>None\<close> if it failed, and the state of the context after it. The equations but
  the last are the documented order: initialise, update, set the tag before the final call of a
  decryption, get it after that of an encryption. Any other call violates a precondition.
\<close>

definition called :: "'a option \<Rightarrow> evp_ctx \<Rightarrow> ('a option \<times> evp_ctx) option" where
  "called out ctx = Some (out, if out = None then Ctx_Failed else ctx)"

definition flag :: "bool \<Rightarrow> bytes option" where
  "flag b = (if b then Some [] else None)"

fun evp_call :: "openssl \<Rightarrow> evp_op \<Rightarrow> evp_ctx \<Rightarrow> (bytes option \<times> evp_ctx) option" where
  "evp_call E (EncryptInit c k iv) Ctx_New = called (flag (evp_encrypt_init E c k iv)) (Ctx_Encrypt c k iv)"
| "evp_call E (EncryptUpdate m n) (Ctx_Encrypt c k iv) =
     called (evp_encrypt_update E c k iv m n) (Ctx_Encrypted c k iv m n)"
| "evp_call E EncryptFinal (Ctx_Encrypted c k iv m n) =
     called (evp_encrypt_final E c k iv m n) (Ctx_Sealed c k iv m n)"
| "evp_call E (GetTag l) (Ctx_Sealed c k iv m n) =
     called (evp_get_tag E c k iv m n l) (Ctx_Sealed c k iv m n)"
| "evp_call E (DecryptInit c k iv) Ctx_New = called (flag (evp_decrypt_init E c k iv)) (Ctx_Decrypt c k iv)"
| "evp_call E (DecryptUpdate m n) (Ctx_Decrypt c k iv) =
     called (evp_decrypt_update E c k iv m n) (Ctx_Decrypted c k iv m n None)"
| "evp_call E (SetTag l tag) (Ctx_Decrypted c k iv m n t) =
     called (flag (evp_set_tag E c l tag)) (Ctx_Decrypted c k iv m n (Some tag))"
| "evp_call E DecryptFinal (Ctx_Decrypted c k iv m n t) =
     called (evp_decrypt_final E c k iv m n t) Ctx_Opened"
| "evp_call E op ctx = None"

text \<open>A call through a pointer whose return code is checked, with the exception thrown on failure.\<close>

definition on_ctx :: "openssl \<Rightarrow> nat option \<Rightarrow> evp_op \<Rightarrow> error \<Rightarrow> (evp_heap, bytes) eff" where
  "on_ctx E ptr op e H =
     (case ptr of
        None \<Rightarrow> (Inl (Undefined ''call on a null cipher context''), H)
      | Some p \<Rightarrow>
          (case H p of
             None \<Rightarrow> (Inl (Undefined ''use of a freed cipher context''), H)
           | Some ctx \<Rightarrow>
               (case evp_call E op ctx of
                  None \<Rightarrow> (Inl (Undefined ''cipher context used out of order''), H)
                | Some (out, ctx) \<Rightarrow> (or_throw out e, H(p \<mapsto> ctx)))))"

subsection \<open>The owning pointer\<close>

definition aes256_evp_deleter :: "nat \<Rightarrow> (evp_heap, unit) eff" where
  "aes256_evp_deleter ptr H =
     (if H ptr = None then (Inl (Undefined ''cipher context freed twice''), H) else (Inr (), H(ptr := None)))"

text \<open>
  The scope of an \<open>aes256_ctx_ptr ctx_ptr{EVP_CIPHER_CTX_new()}\<close>. Its end runs the deleter, unless the
  pointer is null, whether \<open>body\<close> returns or throws.
\<close>

definition aes256_ctx_ptr ::
    "(evp_heap \<Rightarrow> nat option) \<Rightarrow> (nat option \<Rightarrow> (evp_heap, 'a) eff) \<Rightarrow> (evp_heap, 'a) eff" where
  "aes256_ctx_ptr new body H =
     (case new H of
        None \<Rightarrow> body None H
      | Some p \<Rightarrow>
          (case body (Some p) (H(p \<mapsto> Ctx_New)) of
             (out, H) \<Rightarrow>
               (case aes256_evp_deleter p H of
                  (Inl u, H) \<Rightarrow> (Inl u, H)
                | (Inr _, H) \<Rightarrow> (out, H))))"

subsection \<open>The two functions over them\<close>

definition encrypt_openssl_ctx ::
    "(evp_heap \<Rightarrow> nat option) \<Rightarrow> 'r sodium \<Rightarrow> openssl \<Rightarrow> evp_cipher \<Rightarrow> nat \<Rightarrow> bytes \<Rightarrow> bytes \<Rightarrow>
     evp_heap \<Rightarrow> 'r \<Rightarrow> bytes result \<times> evp_heap \<times> 'r" where
  "encrypt_openssl_ctx new N E cipher taglen plaintext key H r =
     (let ivLength = evp_iv_length E cipher;
          output = replicate (ivLength + length plaintext + evp_block_size E cipher + taglen) 0;
          (iv, r') = na_randombytes N ivLength r;
          (out, H') = aes256_ctx_ptr new (\<lambda>ctx.
            sbind (lift (write_at output 0 iv)) (\<lambda>output.
            sbind (on_ctx E ctx (EncryptInit cipher key iv)
              (Runtime_Error (str ''Could not initialise encryption context''))) (\<lambda>_.
            sbind (on_ctx E ctx (EncryptUpdate plaintext (narrow_int (length plaintext)))
              (Runtime_Error (str ''Could not encrypt plaintext''))) (\<lambda>u.
            sbind (lift (write_at output ivLength u)) (\<lambda>output.
            sbind (on_ctx E ctx EncryptFinal
              (Runtime_Error (str ''Could not finalise encryption''))) (\<lambda>f.
            sbind (lift (write_at output (ivLength + length u) f)) (\<lambda>output.
            let o' = ivLength + length u + length f in
            sbind (if 0 < taglen
                   then sbind (on_ctx E ctx (GetTag taglen)
                          (Runtime_Error (str ''Failed to copy encryption tag''))) (\<lambda>t. lift (write_at output o' t))
                   else lift (Inr output)) (\<lambda>output.
            lift (Inr (resize (o' + taglen) output)))))))))) H
      in (out, H', r'))"

definition decrypt_openssl_ctx ::
    "(evp_heap \<Rightarrow> nat option) \<Rightarrow> openssl \<Rightarrow> evp_cipher \<Rightarrow> nat \<Rightarrow> bytes \<Rightarrow> bytes \<Rightarrow> bytes \<Rightarrow>
      (evp_heap, bytes) eff" where
  "decrypt_openssl_ctx new E cipher taglen ciphertext behind key =
     aes256_ctx_ptr new (\<lambda>ctx.
       let iv = take (evp_iv_length E cipher) ciphertext;
           iv_data = take (evp_iv_length E cipher) (ciphertext @ behind);
           rest = drop (length iv) ciphertext
       in sbind (lift (require (taglen \<le> length rest)
            (Runtime_Error (str ''Encrypted value is too short'')))) (\<lambda>_.
          let tag = drop (length rest - taglen) rest;
              ct = take (length rest - taglen) rest;
              output = replicate (length ct + evp_block_size E cipher) 0
          in sbind (lift (require (length iv_data = evp_iv_length E cipher)
               (Undefined ''iv read past the end of the ciphertext''))) (\<lambda>_.
             sbind (on_ctx E ctx (DecryptInit cipher key iv_data)
               (Runtime_Error (str ''Could not initialise decryption context''))) (\<lambda>_.
             sbind (on_ctx E ctx (DecryptUpdate ct (narrow_int (length ct)))
               (Runtime_Error (str ''Could not decrypt block''))) (\<lambda>u.
             sbind (lift (write_at output 0 u)) (\<lambda>output.
             sbind (if tag \<noteq> []
                    then on_ctx E ctx (SetTag taglen tag)
                      (Runtime_Error (str ''Could not set decryption tag''))
                    else lift (Inr [])) (\<lambda>_.
             sbind (on_ctx E ctx DecryptFinal
               (Runtime_Error (str ''Could not finalise decryption''))) (\<lambda>f.
             sbind (lift (write_at output (length u) f)) (\<lambda>output.
             lift (Inr (resize (length u + length f) output)))))))))))"

subsection \<open>Lemmas\<close>

text \<open>A new context is none of those in use; others are never touched, so none is lost or freed twice.\<close>

definition fresh_new :: "(evp_heap \<Rightarrow> nat option) \<Rightarrow> bool" where
  "fresh_new new \<longleftrightarrow> (\<forall>H p. new H = Some p \<longrightarrow> H p = None)"

text \<open>
  A body that makes calls on the one context it was given: it leaves some state in it, so that the
  deleter gives back the heap as it was, and it computes \<open>m\<close>.
\<close>

definition uses_only :: "nat \<Rightarrow> (evp_heap, 'a) eff \<Rightarrow> 'a result \<Rightarrow> evp_heap \<Rightarrow> evp_ctx \<Rightarrow> bool" where
  "uses_only p b m H ctx \<longleftrightarrow> (\<exists>ctx'. b (H(p \<mapsto> ctx)) = (m, H(p \<mapsto> ctx')))"

lemma scope_uses_only:
  assumes "new H = Some p" and "H p = None" and "uses_only p (body (Some p)) m H Ctx_New"
  shows "aes256_ctx_ptr new body H = (m, H)"
proof -
  obtain ctx' where "body (Some p) (H(p \<mapsto> Ctx_New)) = (m, H(p \<mapsto> ctx'))"
    using assms(3) by (auto simp: uses_only_def)
  moreover have "(H(p \<mapsto> ctx'))(p := None) = H" using assms(2) by (auto simp: fun_eq_iff)
  ultimately show ?thesis using assms(1) by (simp add: aes256_ctx_ptr_def aes256_evp_deleter_def)
qed

lemma uses_only_lift: "uses_only p (lift m) m H ctx"
  by (auto simp: uses_only_def lift_apply)

lemma uses_only_bind_lift:
  assumes "\<And>x. m = Inr x \<Longrightarrow> uses_only p (f x) (g x) H ctx"
  shows "uses_only p (sbind (lift m) f) (ebind m g) H ctx"
  using assms by (cases m) (auto simp: uses_only_def sbind_def lift_apply)

lemma uses_only_bind_call:
  assumes "evp_call E op ctx = called out ctx1" and "\<And>x. out = Some x \<Longrightarrow> uses_only p (f x) (g x) H ctx1"
  shows "uses_only p (sbind (on_ctx E (Some p) op e) f) (ebind (or_throw out e) g) H ctx"
  using assms by (cases out) (auto simp: uses_only_def sbind_def on_ctx_def called_def)

lemma uses_only_bind_flag:
  assumes "evp_call E op ctx = called (flag b) ctx1" and "b \<Longrightarrow> uses_only p (f []) g H ctx1"
  shows "uses_only p (sbind (on_ctx E (Some p) op e) f) (ebind (require b e) (\<lambda>_. g)) H ctx"
  using uses_only_bind_call [of E op ctx "flag b" ctx1 p f "\<lambda>_. g" H e] assms
  by (cases b) (auto simp: flag_def require_def)

text \<open>Both functions make their calls in the documented order, on a context that is there.\<close>

lemmas step_lift = uses_only_bind_lift
lemmas step_call = uses_only_bind_call [OF evp_call.simps(2)] uses_only_bind_call [OF evp_call.simps(3)]
  uses_only_bind_call [OF evp_call.simps(4)] uses_only_bind_call [OF evp_call.simps(6)]
  uses_only_bind_call [OF evp_call.simps(8)]
lemmas step_flag = uses_only_bind_flag [OF evp_call.simps(1)] uses_only_bind_flag [OF evp_call.simps(5)]
  uses_only_bind_flag [OF evp_call.simps(7)]

lemma scope_result:
  assumes "new H = Some p" and "H p = None" and "uses_only p (body (Some p)) m H Ctx_New"
  shows "(case aes256_ctx_ptr new body H of (out, H') \<Rightarrow> (out, H', r')) = (m, H, r')"
  by (subst scope_uses_only [of new H p body m]) (use assms in simp_all)

lemma encrypt_openssl_on_ctx:
  assumes "new H = Some p" and "H p = None"
  shows "encrypt_openssl_ctx new N E c taglen m key H r
    = (case encrypt_openssl N E c taglen m key r of (out, r') \<Rightarrow> (out, H, r'))"
proof -
  obtain iv r' where iv: "na_randombytes N (evp_iv_length E c) r = (iv, r')" by fastforce
  show ?thesis
  proof (cases "0 < taglen")
    case True
    show ?thesis
      unfolding encrypt_openssl_ctx_def encrypt_openssl_def Let_def iv prod.case if_P [OF True]
        sbind_assoc ebind_assoc
      by (rule scope_result, rule assms, rule assms) (intro step_lift step_flag step_call uses_only_lift)
  next
    case False
    show ?thesis
      unfolding encrypt_openssl_ctx_def encrypt_openssl_def Let_def iv prod.case if_not_P [OF False]
      by (rule scope_result, rule assms, rule assms)
        (intro step_lift step_flag step_call uses_only_lift | simp only: sbind_lift_Inr ebind_simps)+
  qed
qed

lemma decrypt_openssl_on_ctx:
  assumes "new H = Some p" and "H p = None"
  shows "decrypt_openssl_ctx new E c taglen ct behind key H = (decrypt_openssl E c taglen ct behind key, H)"
proof -
  let ?rest = "drop (length (take (evp_iv_length E c) ct)) ct"
  show ?thesis
  proof (cases "drop (length ?rest - taglen) ?rest = []")
    case True
    show ?thesis
      unfolding decrypt_openssl_ctx_def decrypt_openssl_def Let_def
      by (rule scope_uses_only, rule assms, rule assms)
        (simp only: True simp_thms if_True if_False sbind_lift_Inr require_simps ebind_simps,
          intro step_lift step_flag step_call uses_only_lift)
  next
    case False
    show ?thesis
      unfolding decrypt_openssl_ctx_def decrypt_openssl_def Let_def
      by (rule scope_uses_only, rule assms, rule assms)
        (simp only: False simp_thms if_True if_False, intro step_lift step_flag step_call uses_only_lift)
  qed
qed

lemma encrypt_openssl_null_ctx:
  assumes "new H = None" and "random_ok N"
  shows "fst (encrypt_openssl_ctx new N E c taglen m key H r)
    = Inl (Undefined ''call on a null cipher context'')"
proof -
  obtain iv r' where iv: "na_randombytes N (evp_iv_length E c) r = (iv, r')" by fastforce
  then have "length iv = evp_iv_length E c"
    using random_okD(1) [OF assms(2), of "evp_iv_length E c" r] by simp
  then show ?thesis
    using assms(1) iv
    by (simp add: encrypt_openssl_ctx_def aes256_ctx_ptr_def on_ctx_def write_at_ok sbind_def lift_apply Let_def)
qed

definition first_new :: "evp_heap \<Rightarrow> nat option" where
  "first_new H = (if H 0 = None then Some 0 else None)"

lemma fresh_first_new: "fresh_new first_new"
  by (simp add: fresh_new_def first_new_def)

subsection \<open>Properties\<close>

text \<open>
  C11. The cipher contexts of OpenSSL are used as its documentation asks and none is lost: where a new
  context is allocated, encryption and decryption make their calls on it in the documented order,
  never on a freed one, compute what the functions over whole messages compute, exceptions
  included, and when they return or throw every context but theirs is as it was and theirs has
  been freed, once.
\<close>

theorem cipher_contexts_balanced:
  assumes "fresh_new new" and "new H = Some p"
  shows "encrypt_openssl_ctx new N E c taglen m key H r
      = (case encrypt_openssl N E c taglen m key r of (out, r') \<Rightarrow> (out, H, r')) \<and>
    decrypt_openssl_ctx new E c taglen ct behind key H = (decrypt_openssl E c taglen ct behind key, H)"
proof (intro conjI)
  have "H p = None" using assms by (simp add: fresh_new_def)
  then show "encrypt_openssl_ctx new N E c taglen m key H r
      = (case encrypt_openssl N E c taglen m key r of (out, r') \<Rightarrow> (out, H, r'))"
    and "decrypt_openssl_ctx new E c taglen ct behind key H = (decrypt_openssl E c taglen ct behind key, H)"
    by (simp_all add: encrypt_openssl_on_ctx [of new H p] decrypt_openssl_on_ctx [of new H p] assms(2))
qed

theorem cipher_contexts_balanced_witness:
  "decrypt_openssl_ctx first_new ref_openssl EVP_aes_256_gcm 16 [1, 2, 3] [] [] [7 \<mapsto> Ctx_Failed]
    = (Inl (Runtime_Error (str ''Encrypted value is too short'')), [7 \<mapsto> Ctx_Failed])"
proof -
  have "first_new [7 \<mapsto> Ctx_Failed] = Some 0" by (simp add: first_new_def)
  then have "decrypt_openssl_ctx first_new ref_openssl EVP_aes_256_gcm 16 [1, 2, 3] [] [] [7 \<mapsto> Ctx_Failed]
    = (decrypt_openssl ref_openssl EVP_aes_256_gcm 16 [1, 2, 3] [] [], [7 \<mapsto> Ctx_Failed])"
    by (rule cipher_contexts_balanced [OF fresh_first_new, THEN conjunct2])
  moreover have "decrypt_openssl ref_openssl EVP_aes_256_gcm 16 [1, 2, 3] [] []
      = Inl (Runtime_Error (str ''Encrypted value is too short''))"
    using ref_openssl_ok by (intro decrypt_openssl_too_short) (simp add: openssl_ok_def evp_sizes_ok_def)
  ultimately show ?thesis by simp
qed

text \<open>
  The result of \<open>EVP_CIPHER_CTX_new\<close> is not checked: where it allocates nothing, the first call of an
  encryption is made on a null pointer.
\<close>

theorem context_allocation_unchecked:
  assumes "new H = None" and "random_ok N"
  shows "fst (encrypt_openssl_ctx new N E c taglen m key H r)
    = Inl (Undefined ''call on a null cipher context'')"
  using assms by (rule encrypt_openssl_null_ctx)

theorem context_allocation_unchecked_witness:
  "fst (encrypt_openssl_ctx (\<lambda>H. None) ref_sodium ref_openssl EVP_aes_256_gcm 16 [1] [] Map.empty 0)
    = Inl (Undefined ''call on a null cipher context'')"
  by (rule context_allocation_unchecked) (use ref_sodium_ok in \<open>simp_all add: sodium_ok_def\<close>)

end
