(* ===== verification/XEd25519.thy ===== *)
theory XEd25519
  imports Sampling Ed_Group
begin

text \<open>
  onionreq/signal-xed25519.hpp and signal-xed25519.cpp: XEd25519 signatures with X25519 keys. The
  field arithmetic, the hashes with a personalisation and Ed25519 verification are libsodium's,
  hence parameters, with contracts for what libsodium and RFC 7748 say of them. \<open>assert\<close> is modelled
  as in a debug build.
\<close>

record 'f fe25519 =
  fe_1 :: 'f
  fe_sub :: "'f \<Rightarrow> 'f \<Rightarrow> 'f"
  fe_add :: "'f \<Rightarrow> 'f \<Rightarrow> 'f"
  fe_invert :: "'f \<Rightarrow> 'f"
  fe_mul :: "'f \<Rightarrow> 'f \<Rightarrow> 'f"
  fe_frombytes :: "bytes \<Rightarrow> 'f"
  fe_tobytes :: "'f \<Rightarrow> bytes"

record xhashes =
  xh_blake2b_personal :: "nat \<Rightarrow> bytes \<Rightarrow> bytes list \<Rightarrow> bytes"
  xh_sha512 :: "bytes list \<Rightarrow> bytes"
  xh_verify_detached :: "bytes \<Rightarrow> bytes \<Rightarrow> bytes \<Rightarrow> bool"

subsection \<open>Helpers\<close>

definition constant_time_conditional_assign :: "bytes \<Rightarrow> bytes \<Rightarrow> bool \<Rightarrow> bytes" where
  "constant_time_conditional_assign f g b =
     (let x = map2 (XOR) f g;
          mask = - of_bool b;
          x = map (\<lambda>v. v AND mask) x
      in map2 (XOR) f x)"

definition fe25519_montx_to_edy :: "'f fe25519 \<Rightarrow> 'f \<Rightarrow> 'f" where
  "fe25519_montx_to_edy F u =
     (let one = fe_1 F;
          um1 = fe_sub F u one;
          up1 = fe_add F u one;
          up1 = fe_invert F up1
      in fe_mul F um1 up1)"

definition personality :: bytes where
  "personality = str ''xed25519signatur''"

definition xed25519_compute_r ::
    "'r sodium \<Rightarrow> ed25519 \<Rightarrow> xhashes \<Rightarrow> bytes \<Rightarrow> bytes \<Rightarrow> 'r \<Rightarrow> bytes \<times> 'r" where
  "xed25519_compute_r N D H a msg rng =
     (case na_randombytes N 64 rng of (random, rng) \<Rightarrow>
       (ed_scalar_reduce D (xh_blake2b_personal H 64 personality [a, msg, random]), rng))"

definition ed25519_hram :: "ed25519 \<Rightarrow> xhashes \<Rightarrow> bytes \<Rightarrow> bytes \<Rightarrow> bytes \<Rightarrow> bytes" where
  "ed25519_hram D H R A msg = ed_scalar_reduce D (xh_sha512 H [R, A, msg])"

subsection \<open>Signing and verifying\<close>

definition xed_sign ::
    "'r sodium \<Rightarrow> ed25519 \<Rightarrow> xhashes \<Rightarrow> bytes \<Rightarrow> bytes \<Rightarrow> ('r, bytes) eff" where
  "xed_sign N D H privkey msg rng =
     (if length privkey \<noteq> 32 then (Inl Aborted, rng)
      else
        let A = snd (ed_base D privkey);
            negative = (drop_bit 7 (A ! 31) \<noteq> 0);
            A = A[31 := A ! 31 AND 127];
            a = privkey;
            neg_a = ed_scalar_negate D a;
            a = constant_time_conditional_assign a neg_a negative
        in case xed25519_compute_r N D H a msg rng of (r, rng) \<Rightarrow>
          let R = snd (ed_base_noclamp D r);
              S = ed25519_hram D H R A msg;
              S = ed_scalar_mul D S a;
              S = ed_scalar_add D S r
          in (Inr (R @ S), rng))"

definition xed_pubkey :: "'f fe25519 \<Rightarrow> bytes \<Rightarrow> bytes" where
  "xed_pubkey F curve25519_pubkey =
     (let u = fe_frombytes F curve25519_pubkey;
          y = fe25519_montx_to_edy F u
      in fe_tobytes F y)"

definition xed_verify :: "'f fe25519 \<Rightarrow> xhashes \<Rightarrow> bytes \<Rightarrow> bytes \<Rightarrow> bytes \<Rightarrow> bool result" where
  "xed_verify F H signature curve25519_pubkey msg =
     (if length signature \<noteq> 64 then Inl Aborted
      else if length curve25519_pubkey \<noteq> 32 then Inl Aborted
      else Inr (xh_verify_detached H signature msg (xed_pubkey F curve25519_pubkey)))"

subsection \<open>Lemmas\<close>

lemma conditional_assign:
  "length f = length g \<Longrightarrow> constant_time_conditional_assign f g b = (if b then g else f)"
proof -
  assume len: "length f = length g"
  have "map2 (XOR) f (map (\<lambda>v. v AND - of_bool b) (map2 (XOR) f g)) = (if b then g else f)"
    using len
  proof (induction f g rule: list_induct2)
    case (Cons x xs y ys)
    have "x XOR ((x XOR y) AND - of_bool b) = (if b then y else x)"
      by (simp add: xor.left_commute flip: xor.assoc)
    with Cons show ?case by auto
  qed simp
  then show ?thesis by (simp add: constant_time_conditional_assign_def Let_def)
qed

text \<open>
  The public key with its sign cleared is the point of the scalar actually used: the secret one, or
  its negation when the point had the sign bit set.
\<close>

lemma byte_top_bit: "drop_bit 7 (b :: byte) = 0 \<longleftrightarrow> b < 128"
proof -
  have "drop_bit 7 b = 0 \<longleftrightarrow> unat b div 128 = 0"
    by (simp only: word_unat_eq_iff unsigned_drop_bit_eq unsigned_0)
      (use unat_byte [of b] in \<open>simp add: drop_bit_eq_div take_bit_eq_mod\<close>)
  then show ?thesis by (simp add: word_less_nat_alt div_eq_0_iff)
qed

lemma byte_clear_top: "b < 128 \<Longrightarrow> b AND 127 = (b :: byte)"
proof -
  assume "b < 128"
  then have "unat b mod 2 ^ 7 = unat b" by (simp add: word_less_nat_alt)
  then have "take_bit 7 b = b"
    by (simp only: word_unat_eq_iff unsigned_take_bit_eq take_bit_eq_mod [of 7 "unat b"])
  then show ?thesis by (simp add: take_bit_eq_mask mask_eq_exp_minus_1)
qed

lemma byte_clear_top_xor: "\<not> b < 128 \<Longrightarrow> b AND 127 = b XOR (128 :: byte)"
proof -
  assume "\<not> b < 128"
  then have "drop_bit 7 b \<noteq> 0" by (simp add: byte_top_bit)
  then obtain n where "bit (drop_bit 7 b) n" by (auto simp: bit_eq_iff)
  then have "bit b (7 + n)" by (simp add: bit_simps)
  moreover from this have "7 + n < 8" by (auto dest: bit_imp_le_length)
  ultimately have b7: "bit b 7" by simp
  have bit128: "bit (128 :: byte) n \<longleftrightarrow> n = 7" for n
    using bit_exp_iff [of 7 n, where 'a = byte] by auto
  have "b AND mask 7 = b XOR 128"
  proof (rule bit_word_eqI)
    fix n assume "n < LENGTH(8)"
    then consider "n = 7" | "n < 7" by fastforce
    then show "bit (b AND mask 7) n = bit (b XOR 128) n"
      by cases (simp_all only: bit_and_iff bit_xor_iff bit_mask_iff bit128 b7, simp_all)
  qed
  then show ?thesis by (simp add: mask_eq_exp_minus_1)
qed

lemma xed_key:
  assumes "ed_ok D pt" and "clamped priv"
  defines "A0 \<equiv> snd (ed_base D priv)"
  defines "a \<equiv> constant_time_conditional_assign priv (ed_scalar_negate D priv) (drop_bit 7 (A0 ! 31) \<noteq> 0)"
  shows "A0[31 := A0 ! 31 AND 127] = pt (le_nat a)" and "length a = 32"
    and "le_nat a mod ed_order \<noteq> 0" and "a ! 31 < 128"
proof -
  have sc: "ed_scalars_ok D" and po: "ed_points_ok D pt" using assms(1) by (simp_all add: ed_ok_def)
  have A0: "A0 = pt (le_nat priv)" using po assms(2) by (simp add: A0_def ed_points_ok_def)
  have priv: "length priv = 32" "le_nat priv mod ed_order \<noteq> 0" "priv ! 31 < 128"
    using assms(2) clamped_not_multiple clamped_bounds by (auto simp: clamped_def)
  let ?n = "ed_scalar_negate D priv"
  have neg: "length ?n = 32" "le_nat ?n = (ed_order - le_nat priv mod ed_order) mod ed_order"
    using ed_scalarD(7,8) [OF sc priv(1) priv(1)] .
  have m: "0 < le_nat priv mod ed_order" "le_nat priv mod ed_order < ed_order"
    using priv(2) ed_order_less(2) by simp_all
  have a: "a = (if drop_bit 7 (A0 ! 31) \<noteq> 0 then ?n else priv)"
    unfolding a_def using priv(1) neg(1) by (simp add: conditional_assign)
  have len: "length (pt n) = 32" for n by (rule ed_pointD(1) [OF po])
  show "length a = 32" using a priv(1) neg(1) by simp
  show "a ! 31 < 128" using a priv(3) reduced_top_byte [OF neg] by simp
  show "le_nat a mod ed_order \<noteq> 0" using a priv(2) neg(2) m by simp
  show "A0[31 := A0 ! 31 AND 127] = pt (le_nat a)"
  proof (cases "A0 ! 31 < 128")
    case True
    then show ?thesis using a A0 by (simp add: byte_top_bit byte_clear_top)
  next
    case False
    have "pt (le_nat ?n) = pt (ed_order - le_nat priv mod ed_order)"
      using ed_pointD(2) [OF po] neg(2) by metis
    also have "\<dots> = A0[31 := A0 ! 31 XOR 128]"
      unfolding A0 by (rule ed_pointD(3) [OF po priv(2)])
    finally show ?thesis using a False by (simp add: byte_top_bit byte_clear_top_xor)
  qed
qed

definition xhashes_ok :: "xhashes \<Rightarrow> bool" where
  "xhashes_ok H \<longleftrightarrow>
     (\<forall>p cs. length (xh_blake2b_personal H 64 p cs) = 64) \<and> (\<forall>cs. length (xh_sha512 H cs) = 64)"

text \<open>
  What Ed25519 verification checks of a signature \<open>R @ S\<close> under the key \<open>A\<close>: \<open>S\<close> is below the group
  order and \<open>S B = R + h A\<close> for the hash \<open>h\<close> of \<open>R\<close>, \<open>A\<close> and the message.
\<close>

definition ed25519_equation :: "ed25519 \<Rightarrow> xhashes \<Rightarrow> bytes \<Rightarrow> bytes \<Rightarrow> bytes \<Rightarrow> bool" where
  "ed25519_equation D H sig A msg \<longleftrightarrow>
     (let R = take 32 sig; S = drop 32 sig; h = ed_scalar_reduce D (xh_sha512 H [R, A, msg]) in
      length sig = 64 \<and> le_nat S < ed_order \<and>
      snd (ed_base_noclamp D S) = snd (ed_add D R (snd (ed_noclamp D h A))))"

lemma xed_sign_equation:
  assumes "ed_ok D pt" and "xhashes_ok H" and "clamped priv"
  defines "P \<equiv> snd (ed_base D priv)"
  defines "A \<equiv> P[31 := P ! 31 AND 127]"
  obtains sig rng' n r a random where "xed_sign N D H priv msg rng = (Inr sig, rng')"
    and "ed25519_equation D H sig A msg" and "A = pt n" and "n mod ed_order \<noteq> 0"
    and "take 32 sig = pt r" and "r = le_nat (xh_blake2b_personal H 64 personality [a, msg, random])"
    and "length a = 32" and "random = fst (na_randombytes N 64 rng)"
proof -
  have sc: "ed_scalars_ok D" and po: "ed_points_ok D pt" using assms(1) by (simp_all add: ed_ok_def)
  define a where "a = constant_time_conditional_assign priv (ed_scalar_negate D priv) (drop_bit 7 (P ! 31) \<noteq> 0)"
  have key: "A = pt (le_nat a)" "length a = 32" "le_nat a mod ed_order \<noteq> 0"
    unfolding a_def A_def P_def using xed_key [OF assms(1,3)] by blast+
  obtain random rng' where rnd: "na_randombytes N 64 rng = (random, rng')" by fastforce
  define r where "r = ed_scalar_reduce D (xh_blake2b_personal H 64 personality [a, msg, random])"
  have r: "length r = 32" "le_nat r = le_nat (xh_blake2b_personal H 64 personality [a, msg, random]) mod ed_order"
    unfolding r_def using assms(2) by (simp_all add: ed_reduceD [OF sc] xhashes_ok_def)
  then have R: "snd (ed_base_noclamp D r) = pt (le_nat r)"
    using ed_pointD(4) [OF po r(1) reduced_top_byte [OF r]] by simp
  define h where "h = ed_scalar_reduce D (xh_sha512 H [pt (le_nat r), A, msg])"
  have h: "length h = 32" "le_nat h = le_nat (xh_sha512 H [pt (le_nat r), A, msg]) mod ed_order"
    unfolding h_def using assms(2) by (simp_all add: ed_reduceD [OF sc] xhashes_ok_def)
  define S where "S = ed_scalar_add D (ed_scalar_mul D h a) r"
  have mul: "length (ed_scalar_mul D h a) = 32" "le_nat (ed_scalar_mul D h a) = le_nat h * le_nat a mod ed_order"
    using ed_scalarD(1,2) [OF sc h(1) key(2)] .
  have "length S = 32 \<and> le_nat S = (le_nat (ed_scalar_mul D h a) + le_nat r) mod ed_order"
    unfolding S_def using ed_scalarD(3,4) [OF sc mul(1) r(1)] by blast
  then have S: "length S = 32" "le_nat S = (le_nat h * le_nat a mod ed_order + le_nat r) mod ed_order"
    unfolding mul(2) by blast+
  have "snd (ed_base_noclamp D S) = pt (le_nat S)"
    using ed_pointD(4) [OF po S(1) reduced_top_byte [OF S]] by simp
  also have "\<dots> = pt (le_nat h * le_nat a + le_nat r)"
  proof (rule pt_cong [OF po])
    show "le_nat S mod ed_order = (le_nat h * le_nat a + le_nat r) mod ed_order"
      unfolding S(2) mod_mod_trivial by (rule mod_add_left_eq)
  qed
  also have "\<dots> = pt (le_nat r + le_nat h * le_nat a)" by (simp only: add.commute)
  also have "\<dots> = snd (ed_add D (pt (le_nat r)) (snd (ed_noclamp D h A)))"
    unfolding key(1)
    by (simp add: ed_pointD(5) [OF po h(1) reduced_top_byte [OF h] key(3)] ed_pointD(7) [OF po])
  finally have eq: "snd (ed_base_noclamp D S) = snd (ed_add D (pt (le_nat r)) (snd (ed_noclamp D h A)))" .
  have len: "length (pt (le_nat r)) = 32" by (rule ed_pointD(1) [OF po])
  moreover have "le_nat S < ed_order" using S(2) ed_order_less(2) by simp
  ultimately have valid: "ed25519_equation D H (pt (le_nat r) @ S) A msg"
    using eq S(1) by (simp add: ed25519_equation_def h_def)
  have sign: "xed_sign N D H priv msg rng = (Inr (pt (le_nat r) @ S), rng')"
    using assms(3) rnd R
    by (simp add: xed_sign_def clamped_def xed25519_compute_r_def ed25519_hram_def Let_def S_def h_def
        A_def P_def flip: a_def r_def) (simp add: a_def P_def r_def)
  have nonce: "take 32 (pt (le_nat r) @ S) = pt (le_nat (xh_blake2b_personal H 64 personality [a, msg, random]))"
    using len pt_cong [OF po, of "le_nat r"] by (simp add: r(2))
  show ?thesis
    by (rule that [OF sign valid key(1,3) nonce refl key(2)]) (simp add: rnd)
qed

subsection \<open>The two forms of a key\<close>

text \<open>
  The field: \<open>val x\<close> is the residue modulo the prime \<open>2\<^sup>2\<^sup>5\<^sup>5 - 19\<close> that \<open>x\<close> stands for. The inverse is
  specified where there is one; \<open>fe_frombytes\<close> ignores the top bit, \<open>fe_tobytes\<close> writes the residue.
\<close>

definition fe_prime :: int where
  "fe_prime = 2 ^ 255 - 19"

definition fe_ok :: "'f fe25519 \<Rightarrow> ('f \<Rightarrow> int) \<Rightarrow> bool" where
  "fe_ok F val \<longleftrightarrow>
     val (fe_1 F) = 1 \<and>
     (\<forall>x y. val (fe_sub F x y) = (val x - val y) mod fe_prime \<and>
        val (fe_add F x y) = (val x + val y) mod fe_prime \<and>
        val (fe_mul F x y) = (val x * val y) mod fe_prime) \<and>
     (\<forall>x. coprime (val x) fe_prime \<longrightarrow> (val (fe_invert F x) * val x) mod fe_prime = 1) \<and>
     (\<forall>b. length b = 32 \<longrightarrow> val (fe_frombytes F b) = int (le_nat b mod 2 ^ 255) mod fe_prime) \<and>
     (\<forall>x. fe_tobytes F x = nat_le 32 (nat (val x)))"

text \<open>
  RFC 7748, 4.1: the X25519 public key of a secret key, the coordinate \<open>u\<close> of a point of Curve25519,
  and the coordinate \<open>y\<close> of the Edwards point for the same scalar satisfy \<open>u (1 - y) = 1 + y\<close>.
  Both are written canonically, the Edwards point with the sign of \<open>x\<close> in the top bit.
\<close>

definition edwards_y :: "bytes \<Rightarrow> int" where
  "edwards_y P = int (le_nat P mod 2 ^ 255)"

definition birational :: "'r sodium \<Rightarrow> ed25519 \<Rightarrow> bytes \<Rightarrow> bool" where
  "birational N D priv \<longleftrightarrow>
     (let u = int (le_nat (na_scalarmult_base N priv)); y = edwards_y (snd (ed_base D priv)) in
      length (na_scalarmult_base N priv) = 32 \<and> u < fe_prime \<and> y < fe_prime \<and>
      (u * (1 - y)) mod fe_prime = (1 + y) mod fe_prime)"

text \<open>
  Libsodium's verification accepts a signature that satisfies the equation when neither the key nor
  \<open>R\<close> is of small order: multiples of the base point other than the neutral one, as \<open>pt\<close> writes them.
\<close>

definition ed25519_verifies :: "ed25519 \<Rightarrow> (nat \<Rightarrow> bytes) \<Rightarrow> xhashes \<Rightarrow> bool" where
  "ed25519_verifies D pt H \<longleftrightarrow>
     (\<forall>sig msg n r. ed25519_equation D H sig (pt n) msg \<longrightarrow> n mod ed_order \<noteq> 0 \<longrightarrow>
        take 32 sig = pt r \<longrightarrow> r mod ed_order \<noteq> 0 \<longrightarrow> xh_verify_detached H sig msg (pt n))"

lemma nat_le_le_nat: "length s = k \<Longrightarrow> nat_le k (le_nat s) = s"
proof (induction s arbitrary: k)
  case (Cons b s)
  have "(unat b + 256 * le_nat s) mod 256 = unat b" "(unat b + 256 * le_nat s) div 256 = le_nat s"
    using unat_byte [of b] by simp_all
  with Cons show ?case by (cases k) auto
qed simp

lemma mod_top_digit: "m < A \<Longrightarrow> (A * b + m) mod (A * c) = A * (b mod c) + (m :: nat)"
  by (simp add: mod_mult2_eq)

lemma le_nat_clear_sign:
  assumes "length s = 32"
  shows "nat_le 32 (le_nat s mod 2 ^ 255) = s[31 := s ! 31 AND 127]"
proof -
  obtain b0 mid b31 where s: "s = b0 # mid @ [b31]" "length mid = 30"
    using scalar_ends [OF assms] .
  have two_power_7: "(2 :: nat) ^ 7 = 128" by simp
  have "take_bit 7 b31 = b31 AND 127" by (simp add: take_bit_eq_mask mask_eq_exp_minus_1)
  then have b: "unat (b31 AND 127) = unat b31 mod 128"
    using take_bit_eq_mod [of 7 "unat b31"] by (metis unsigned_take_bit_eq two_power_7)
  let ?m = "unat b0 + 256 * le_nat mid"
  have "le_nat mid < 256 ^ 30" using le_nat_less [of mid] s(2) by simp
  then have m: "?m < 256 ^ 31" using unat_byte [of b0] by simp
  have "le_nat s mod 2 ^ 255 = (256 ^ 31 * unat b31 + ?m) mod (256 ^ 31 * 128)"
    unfolding s(1) le_nat_ends [OF s(2)] by (simp add: add.commute)
  also have "\<dots> = 256 ^ 31 * (unat b31 mod 128) + ?m"
    using m by (rule mod_top_digit)
  finally have "le_nat s mod 2 ^ 255 = le_nat (b0 # mid @ [b31 AND 127])"
    unfolding le_nat_ends [OF s(2)] b by simp
  then show ?thesis
    using s nat_le_le_nat [of "b0 # mid @ [b31 AND 127]" 32] by (simp add: nth_append list_update_append)
qed

text \<open>\<open>u + 1\<close> has an inverse, because \<open>(u + 1) (1 - y) = 2\<close> and the prime is odd; and \<open>u - 1 = y (u + 1)\<close>.\<close>

lemma birational_inverse:
  fixes u y p :: int
  assumes "(u * (1 - y)) mod p = (1 + y) mod p" and "odd p"
  shows "coprime ((u + 1) mod p) p" and "(u - 1) mod p = (y * (u + 1)) mod p"
proof -
  have dvd: "p dvd u * (1 - y) - (1 + y)" using assms(1) by (simp add: mod_eq_dvd_iff)
  then have p2: "p dvd (u + 1) * (1 - y) - 2" by (simp add: algebra_simps)
  show "coprime ((u + 1) mod p) p"
  proof (rule coprimeI)
    fix d assume d: "d dvd (u + 1) mod p" "d dvd p"
    then have "d dvd u + 1" by (simp add: dvd_mod_iff)
    then have "d dvd (u + 1) * (1 - y) - ((u + 1) * (1 - y) - 2)"
      using p2 d(2) by (meson dvd_diff dvd_mult2 dvd_trans)
    then have "d dvd 2" by simp
    moreover obtain k where "p = 2 * k + 1" using assms(2) by (rule oddE)
    then have "1 = p - 2 * k" by simp
    ultimately show "is_unit d" using d(2) by (metis dvd_diff dvd_mult2)
  qed
  show "(u - 1) mod p = (y * (u + 1)) mod p"
    using dvd by (simp add: mod_eq_dvd_iff algebra_simps)
qed

lemma fe_prime_facts: "odd fe_prime" "0 < fe_prime" "fe_prime < 2 ^ 255"
  by (simp_all add: fe_prime_def)

lemma montx_to_edy_value:
  assumes "fe_ok F val" and "val x = u mod fe_prime"
    and "(u * (1 - y)) mod fe_prime = (1 + y) mod fe_prime" and "0 \<le> y" and "y < fe_prime"
  shows "val (fe25519_montx_to_edy F x) = y"
proof -
  let ?i = "val (fe_invert F (fe_add F x (fe_1 F)))"
  note bi = birational_inverse [OF assms(3) fe_prime_facts(1)]
  have up1: "val (fe_add F x (fe_1 F)) = (u + 1) mod fe_prime"
    and um1: "val (fe_sub F x (fe_1 F)) = (u - 1) mod fe_prime"
    using assms(1,2) by (simp_all add: fe_ok_def mod_simps)
  then have inv: "(?i * (u + 1)) mod fe_prime = 1"
    using assms(1) bi(1) unfolding fe_ok_def by (metis mod_mult_right_eq)
  have "val (fe25519_montx_to_edy F x) = ((u - 1) * ?i) mod fe_prime"
    using assms(1) um1 by (simp add: fe_ok_def fe25519_montx_to_edy_def Let_def mod_simps)
  also have "\<dots> = (y * ((?i * (u + 1)) mod fe_prime)) mod fe_prime"
    using bi(2) by (metis (no_types) mod_mult_left_eq mod_mult_right_eq mult.assoc mult.commute)
  finally show ?thesis using inv assms(4,5) by simp
qed

lemma xed_pubkey_edwards:
  assumes "fe_ok F val" and "birational N D priv" and "length (snd (ed_base D priv)) = 32"
  shows "xed_pubkey F (na_scalarmult_base N priv) =
    (snd (ed_base D priv))[31 := snd (ed_base D priv) ! 31 AND 127]"
proof -
  let ?pub = "na_scalarmult_base N priv" and ?P = "snd (ed_base D priv)"
  let ?u = "int (le_nat ?pub)"
  have bi: "length ?pub = 32" "?u < fe_prime" "edwards_y ?P < fe_prime"
      "(?u * (1 - edwards_y ?P)) mod fe_prime = (1 + edwards_y ?P) mod fe_prime"
    using assms(2) by (simp_all add: birational_def Let_def)
  then have "le_nat ?pub mod 2 ^ 255 = le_nat ?pub"
    by (intro mod_less) (simp add: fe_prime_def)
  then have "val (fe_frombytes F ?pub) = ?u mod fe_prime"
    using assms(1) bi(1) by (simp add: fe_ok_def)
  then have "val (fe25519_montx_to_edy F (fe_frombytes F ?pub)) = edwards_y ?P"
    by (rule montx_to_edy_value [OF assms(1) _ bi(4)]) (use bi(3) in \<open>simp_all add: edwards_y_def\<close>)
  then show ?thesis
    using assms(1) le_nat_clear_sign [OF assms(3)]
    by (simp add: xed_pubkey_def Let_def fe_ok_def edwards_y_def)
qed

subsection \<open>Properties\<close>

text \<open>
  The branch-free assignment is the conditional it stands for, on keys of any length.
\<close>

theorem constant_time_conditional_assign_correct:
  assumes "length f = length g"
  shows "constant_time_conditional_assign f g b = (if b then g else f)"
  using assms by (rule conditional_assign)

theorem constant_time_conditional_assign_correct_witness:
  "constant_time_conditional_assign [1, 200] [7, 9] True = [7, 9]"
  by (simp add: constant_time_conditional_assign_correct)


text \<open>
  For the example: the field itself, with inverses by Euclid's algorithm; the secret key \<open>4 L - 4\<close>, whose
  Edwards point has the sign bit set; the X25519 public key that belongs to it; and a verification
  that refuses neutral points.
\<close>

definition ref_inverse :: "int \<Rightarrow> int" where
  "ref_inverse x = fst (bezw (nat (x mod fe_prime)) (nat fe_prime)) mod fe_prime"

definition ref_fe :: "int fe25519" where
  "ref_fe = \<lparr>fe_1 = 1, fe_sub = (\<lambda>a b. (a - b) mod fe_prime), fe_add = (\<lambda>a b. (a + b) mod fe_prime),
     fe_invert = ref_inverse, fe_mul = (\<lambda>a b. (a * b) mod fe_prime),
     fe_frombytes = (\<lambda>b. int (le_nat b mod 2 ^ 255) mod fe_prime),
     fe_tobytes = (\<lambda>a. nat_le 32 (nat (a mod fe_prime)))\<rparr>"

lemma ref_inverse:
  assumes "coprime x fe_prime"
  shows "(ref_inverse x * x) mod fe_prime = 1"
proof -
  let ?x = "nat (x mod fe_prime)" and ?p = "nat fe_prime"
  have int: "int ?x = x mod fe_prime" "int ?p = fe_prime"
    using fe_prime_facts(2) by simp_all
  have "gcd ?x ?p = 1"
    using assms int gcd_red_int [of x fe_prime]
    by (metis coprime_iff_gcd_eq_1 gcd.commute gcd_int_int_eq of_nat_eq_1_iff)
  then have "fst (bezw ?x ?p) * (x mod fe_prime) + snd (bezw ?x ?p) * fe_prime = 1"
    using bezw_aux [of ?x ?p] int by simp
  then have "(fst (bezw ?x ?p) * (x mod fe_prime)) mod fe_prime = 1 mod fe_prime"
    by (metis mod_mult_self1)
  then show ?thesis by (simp add: ref_inverse_def mod_simps) (simp add: fe_prime_def)
qed

lemma ref_fe_ok: "fe_ok ref_fe (\<lambda>x. x mod fe_prime)"
proof -
  have "(ref_inverse x * x) mod fe_prime = 1" if "coprime (x mod fe_prime) fe_prime" for x
    using that gcd_red_int [of x fe_prime]
    by (intro ref_inverse) (simp add: coprime_iff_gcd_eq_1 gcd.commute)
  then show ?thesis
    by (simp add: fe_ok_def ref_fe_def mod_simps) (simp add: fe_prime_def)
qed

definition ref_xhashes :: xhashes where
  "ref_xhashes =
     (let H = \<lparr>xh_blake2b_personal = (\<lambda>n p cs. nat_le n (1 + sum_list (map unat (concat cs)))),
        xh_sha512 = (\<lambda>cs. take 64 (concat cs @ replicate 64 1)),
        xh_verify_detached = (\<lambda>sig msg pk. False)\<rparr>
      in H\<lparr>xh_verify_detached := (\<lambda>sig msg pk. ed25519_equation ref_ed H sig pk msg \<and>
           ref_unpt pk mod ed_order \<noteq> 0 \<and> ref_unpt (take 32 sig) mod ed_order \<noteq> 0)\<rparr>)"

definition ref_secret :: bytes where
  "ref_secret = nat_le 32 (4 * ed_order - 4)"

definition ref_x25519 :: "nat sodium" where
  "ref_x25519 = ref_sodium\<lparr>na_scalarmult_base := (\<lambda>priv.
     let y = edwards_y (snd (ed_base ref_ed priv))
     in nat_le 32 (nat (((1 + y) * ref_inverse (1 - y)) mod fe_prime)))\<rparr>"

lemma ref_xhashes_ok: "xhashes_ok ref_xhashes"
  by (auto simp: xhashes_ok_def ref_xhashes_def)

lemma ref_verifies: "ed25519_verifies ref_ed ref_pt ref_xhashes"
  by (auto simp: ed25519_verifies_def ref_xhashes_def ref_unpt_pt ed25519_equation_def Let_def)

lemma ref_secret_value: "le_nat ref_secret = 4 * ed_order - 4"
  unfolding ref_secret_def by (rule le_nat_32) (simp add: ed_order_def)

lemma nat_le_32_ends:
  "nat_le 32 n = word_of_nat (n mod 256) # nat_le 30 (n div 256) @ [word_of_nat (n div 256 ^ 31 mod 256)]"
  using nat_le_snoc [of 31 n] nat_le.simps(2) [of 30 n] by simp

lemma ref_secret_clamped: "clamped ref_secret"
  by (simp add: clamped_def ref_secret_def nat_le_32_ends nth_append)
    (simp add: ed_order_def)

lemma ref_secret_point:
  "snd (ed_base ref_ed ref_secret) = (nat_le 32 4)[31 := nat_le 32 4 ! 31 XOR 128]"
proof -
  have "(4 * ed_order - 4) mod ed_order = ed_order - 4" by (simp add: ed_order_def)
  then show ?thesis
    by (simp add: ref_ed_def ref_secret_value ref_pt_def) (simp add: ed_order_def)
qed

lemma ref_secret_y: "edwards_y (snd (ed_base ref_ed ref_secret)) = 4"
proof -
  have top: "nat_le 32 4 ! 31 = 0" "nat_le 32 4 ! 31 XOR 128 AND 127 = 0"
    by (simp_all add: nat_le_32_ends nth_append)
  let ?P = "snd (ed_base ref_ed ref_secret)"
  have "nat_le 32 (le_nat ?P mod 2 ^ 255) = nat_le 32 4"
    unfolding ref_secret_point using top
    by (subst le_nat_clear_sign) (simp_all add: list_update_same_conv)
  then have "le_nat (nat_le 32 (le_nat ?P mod 2 ^ 255)) = le_nat (nat_le 32 4)" by simp
  then show ?thesis by (simp only: le_nat_nat_le edwards_y_def) simp
qed

lemma ref_birational: "birational ref_x25519 ref_ed ref_secret"
proof -
  have cop: "coprime (1 - 4) fe_prime"
  proof (rule coprimeI)
    fix d :: int assume d: "d dvd 1 - 4" "d dvd fe_prime"
    have "d dvd 3" using d(1) by simp
    then have "d dvd fe_prime - 3 * 19298681539552699237261830834781317975544997444273427339909597334652188273316" using d(2) by (intro dvd_diff dvd_mult2)
    then show "is_unit d" by (simp add: fe_prime_def)
  qed
  let ?u = "((1 + 4) * ref_inverse (1 - 4)) mod fe_prime"
  have u: "0 \<le> ?u" "?u < fe_prime" using fe_prime_facts(2) by simp_all
  then have "le_nat (nat_le 32 (nat ?u)) = nat ?u"
    using fe_prime_facts(3) by (intro le_nat_32) simp
  moreover have "(?u * (1 - 4)) mod fe_prime = (1 + 4) mod fe_prime"
    using ref_inverse [OF cop] by (metis mod_mult_left_eq mod_mult_right_eq mult.assoc mult_1_right)
  ultimately show ?thesis
    using u by (simp add: birational_def ref_x25519_def ref_secret_y) (simp add: fe_prime_def)
qed

text \<open>The nonce of the example is not zero.\<close>

lemma ref_nonce:
  assumes "length (concat cs) < 1000"
  shows "ref_pt (le_nat (xh_blake2b_personal ref_xhashes 64 p cs)) \<noteq> ref_pt 0"
proof -
  let ?n = "1 + sum_list (map unat (concat cs))"
  have "sum_list (map unat bs) \<le> 255 * length (bs :: bytes)" for bs
    proof (induction bs)
    case (Cons b bs)
    then show ?case using unat_byte [of b] by simp
  qed simp
  from this [of "concat cs"] assms have n: "?n < 256000" by simp
  then have "le_nat (xh_blake2b_personal ref_xhashes 64 p cs) = ?n"
    by (simp add: ref_xhashes_def le_nat_nat_le del: nat_le.simps)
  moreover have "?n mod ed_order = ?n" using n by (intro mod_less) (simp add: ed_order_def)
  ultimately show ?thesis
    using ref_unpt_pt [of ?n] ref_unpt_pt [of 0] by (auto simp: ed_order_def)
qed


end
