(* ===== verification/Py_Bindings.thy ===== *)
theory Py_Bindings
  imports Onion_Delivery Node_Fetcher XEd25519
begin

text \<open>
  The Python bindings (pybind/): the checks they make of the byte strings and lists Python passes
  in (junk.cpp, xed25519.cpp, consensus.cpp), the classes and functions they define, and the
  lifetimes of the objects. The wrappers that only pass a call on are in \<open>Py_Module\<close>. A \<open>Direct\<close> object owns the OxenMQ instance its fetchers refer to, and
  nothing keeps it alive for them: \<open>py_heap\<close> records which objects exist.
\<close>

subsection \<open>pybind/junk.cpp\<close>

definition set_key :: "bytes \<Rightarrow> bytes \<Rightarrow> bytes result" where
  "set_key out inp =
     ebind (require (length inp = length out) (Invalid_Argument (str ''invalid pubkey size''))) (\<lambda>_.
     write_at out 0 inp)"

definition py_Parser :: "bytes \<Rightarrow> bytes \<Rightarrow> junk_parser option result" where
  "py_Parser pubkey privkey =
     ebind (set_key (null_bytes 32) pubkey) (\<lambda>first.
     ebind (set_key (null_bytes 32) privkey) (\<lambda>second.
     Inr (JunkParser_keys (first, second))))"

fun py_parse_junk :: "('r, 'j) libs \<Rightarrow> junk_parser \<Rightarrow> bytes \<Rightarrow> 'r junk result" where
  "py_parse_junk L (JunkDecrypter keys) stuff = ParseJunk L keys stuff"

definition py_transformReply :: "'r junk \<Rightarrow> bytes \<Rightarrow> ('r, bytes) eff" where
  "py_transformReply junk replyStr = transformReply junk replyStr"

subsection \<open>pybind/onion_maker.cpp\<close>

definition py_all_xchacha20 :: onion_maker where
  "py_all_xchacha20 = OnionMaker_xchacha20"

definition py_all_aesgcm :: onion_maker where
  "py_all_aesgcm = OnionMaker_aesgcm"

definition py_make_onion ::
    "('r, 'j) libs \<Rightarrow> onion_maker \<Rightarrow> bytes \<Rightarrow> onion_path \<Rightarrow> ('r, onion_payload) eff" where
  "py_make_onion L self plaintext p = maker_MakeOnion L self plaintext p"

subsection \<open>pybind/xed25519.cpp\<close>

definition uview :: "bytes \<Rightarrow> nat \<Rightarrow> bytes \<Rightarrow> bytes result" where
  "uview inp required_size arg_name =
     (if required_size \<noteq> 0 \<and> length inp \<noteq> required_size
      then Inl (Invalid_Argument (str ''Invalid '' @ arg_name @ str '' value: expected ''
        @ std_to_string required_size @ str '' bytes''))
      else Inr inp)"

definition py_xed_sign ::
    "'r sodium \<Rightarrow> ed25519 \<Rightarrow> xhashes \<Rightarrow> bytes \<Rightarrow> bytes \<Rightarrow> ('r, bytes) eff" where
  "py_xed_sign N D H privkey msg =
     sbind (lift (uview privkey 32 (str ''curve25519_privkey''))) (\<lambda>a.
     sbind (lift (uview msg 0 (str ''argument''))) (\<lambda>m. xed_sign N D H a m))"

definition py_xed_pubkey :: "'f fe25519 \<Rightarrow> bytes \<Rightarrow> bytes result" where
  "py_xed_pubkey F pub =
     ebind (uview pub 32 (str ''curve25519_pubkey'')) (\<lambda>A. Inr (xed_pubkey F A))"

definition py_xed_verify :: "'f fe25519 \<Rightarrow> xhashes \<Rightarrow> bytes \<Rightarrow> bytes \<Rightarrow> bytes \<Rightarrow> bool result" where
  "py_xed_verify F H signature pub msg =
     ebind (uview signature 64 (str ''signature'')) (\<lambda>sig.
     ebind (uview pub 32 (str ''curve25519_pubkey'')) (\<lambda>A.
     ebind (uview msg 0 (str ''argument'')) (\<lambda>m. xed_verify F H sig A m)))"

subsection \<open>pybind/consensus.cpp\<close>

definition PyDirectConsensus :: "bytes placement \<Rightarrow> bytes list \<Rightarrow> consensus option result" where
  "PyDirectConsensus place py_seeds =
     ebind (require (py_seeds \<noteq> []) (Invalid_Argument (str ''cannot use empty seed node list''))) (\<lambda>_.
     let seed_set = fold (\<lambda>s xs. uset_insert place (=) xs s) py_seeds []
     in Inr (map_option (SeedNodes seed_set) Consensus_direct_oxenmq))"

text \<open>
  The objects Python holds: a \<open>Direct\<close> by its number, a fetcher with the number of the \<open>Direct\<close> whose
  OxenMQ it refers to, path selectors. \<open>py_drop_Direct\<close> is the garbage collector destroying a
  \<open>Direct\<close> object, and its OxenMQ with it.
\<close>

record 'c py_heap =
  py_directs :: "nat \<rightharpoonup> consensus"
  py_fetchers :: "nat \<rightharpoonup> nat \<times> 'c fetcher"
  py_selectors :: "nat \<rightharpoonup> path_selection"

definition py_Direct :: "bytes placement \<Rightarrow> nat \<Rightarrow> bytes list \<Rightarrow> 'c py_heap \<Rightarrow> 'c py_heap result" where
  "py_Direct place d py_seeds h =
     ebind (PyDirectConsensus place py_seeds) (\<lambda>c. Inr (h\<lparr>py_directs := (py_directs h)(d := c)\<rparr>))"

definition py_make_node_fetcher :: "nat \<Rightarrow> nat \<Rightarrow> 'c py_heap \<Rightarrow> 'c py_heap result" where
  "py_make_node_fetcher d f h =
     (case py_directs h d of
        None \<Rightarrow> Inl (Undefined ''use of a destroyed object'')
      | Some c \<Rightarrow> Inr (h\<lparr>py_fetchers := (py_fetchers h)(f \<mapsto> (d, CreateNodeFetcher c))\<rparr>))"

definition py_make_path_selector :: "nat \<Rightarrow> nat \<Rightarrow> 'c py_heap \<Rightarrow> 'c py_heap result" where
  "py_make_path_selector d i h =
     (case py_directs h d of
        None \<Rightarrow> Inl (Undefined ''use of a destroyed object'')
      | Some c \<Rightarrow> Inr (h\<lparr>py_selectors := (py_selectors h)(i \<mapsto> CreatePathSelector c)\<rparr>))"

definition py_set_node_list :: "nat \<Rightarrow> (ed25519_pubkey \<times> snode_info) list \<Rightarrow> 'c py_heap \<Rightarrow> 'c py_heap result" where
  "py_set_node_list i nodelist h =
     (case py_selectors h i of
        None \<Rightarrow> Inl (Undefined ''use of a destroyed object'')
      | Some s \<Rightarrow> Inr (h\<lparr>py_selectors := (py_selectors h)(i \<mapsto> StoreNodeList nodelist s)\<rparr>))"

definition py_drop_Direct :: "nat \<Rightarrow> 'c py_heap \<Rightarrow> 'c py_heap" where
  "py_drop_Direct d h = h\<lparr>py_directs := (py_directs h)(d := None)\<rparr>"

text \<open>What \<open>fetch_all\<close> leaves of the callback, and the objects, network and generator after it.\<close>

definition py_fetch_all ::
    "oxenc \<Rightarrow> 'j json_lib \<Rightarrow> ('a, 'c, 'w) oxenmq \<Rightarrow> (ed25519_pubkey \<times> snode_info) placement \<Rightarrow>
     (nat \<Rightarrow> snode_info) \<Rightarrow> 'g draw \<Rightarrow> nat \<Rightarrow> 'c py_heap \<Rightarrow> 'w \<Rightarrow> 'g \<Rightarrow>
     ('c, (ed25519_pubkey \<times> snode_info) list) mq_call result \<times> 'c py_heap \<times> 'w \<times> 'g" where
  "py_fetch_all X J M place mem draw i h w g =
     (case py_fetchers h i of
        None \<Rightarrow> (Inl (Undefined ''use of a destroyed object''), h, w, g)
      | Some (d, f) \<Rightarrow>
          if py_directs h d = None then (Inl (Undefined ''use of a destroyed OxenMQ''), h, w, g)
          else (case FetchAll X J M place mem draw f w g of
                  (call, f, w, g) \<Rightarrow> (call, h\<lparr>py_fetchers := (py_fetchers h)(i \<mapsto> (d, f))\<rparr>, w, g)))"

text \<open>
  \<open>py_drop_fetcher\<close> is the garbage collector destroying a fetcher; \<open>py_fetch_reply\<close> the callback that
  \<open>fetch_all\<close> of fetcher \<open>i\<close> left with OxenMQ, run when the objects are \<open>h\<close>: it calls \<open>ParseNodeList\<close> of
  its fetcher where there is something to parse.
\<close>

definition py_drop_fetcher :: "nat \<Rightarrow> 'c py_heap \<Rightarrow> 'c py_heap" where
  "py_drop_fetcher i h = h\<lparr>py_fetchers := (py_fetchers h)(i := None)\<rparr>"

definition py_fetch_reply ::
    "oxenc \<Rightarrow> 'j json_lib \<Rightarrow> (ed25519_pubkey \<times> snode_info) placement \<Rightarrow> (nat \<Rightarrow> snode_info) \<Rightarrow> nat \<Rightarrow>
     'c py_heap \<Rightarrow> bool \<Rightarrow> bytes list \<Rightarrow> (ed25519_pubkey \<times> snode_info) list result" where
  "py_fetch_reply X J place mem i h success msgs =
     (if success \<and> 1 < length msgs \<and> py_fetchers h i = None
      then Inl (Undefined ''use of a destroyed fetcher'')
      else fetch_reply X J place mem success msgs)"

subsection \<open>Lemmas\<close>

lemma set_key_spec:
  "set_key out inp =
    (if length inp = length out then Inr inp else Inl (Invalid_Argument (str ''invalid pubkey size'')))"
  by (simp add: set_key_def write_at_full)

lemma uview_any [simp]: "uview inp 0 name = Inr inp"
  by (simp add: uview_def)

lemma fold_insert_nonempty:
  assumes "place_ok place" and "ss \<noteq> [] \<or> xs \<noteq> []"
  shows "fold (\<lambda>s xs. uset_insert place (=) xs s) ss xs \<noteq> []"
  using assms(2)
proof (induction ss arbitrary: xs)
  case (Cons s ss)
  have "set (uset_insert place (=) xs s) \<noteq> {}"
    using assms(1) by (auto simp: uset_insert_set)
  then show ?case using Cons.IH by (metis fold_simps(2) set_empty)
qed simp

lemma uset_insert_self: "place_ok place \<Longrightarrow> set (uset_insert place (=) xs s) = insert s (set xs)"
  by (auto simp: uset_insert_set)

lemma fold_insert_set:
  "place_ok place \<Longrightarrow> set (fold (\<lambda>s xs. uset_insert place (=) xs s) ss xs) = set ss \<union> set xs"
  by (induction ss arbitrary: xs) (auto simp: uset_insert_self)

text \<open>There is something for a parser to parse: a request made for its key.\<close>

lemma some_junk:
  assumes "libs_ok L"
  obtains a b parser stuff junk where "py_Parser a b = Inr (Some parser)"
    and "py_parse_junk L parser stuff = Inr junk"
proof -
  let ?sk = "replicate 32 0" and ?N = "lib_na L"
  let ?keys = "(na_scalarmult_base ?N ?sk, ?sk)"
  obtain n :: snode_info where n: "onion n = fst ?keys" by (rule that) (rule snode_info.select_convs(2))
  have pk: "length (fst ?keys) = 32" using libs_okD(1) [OF assms] by (simp add: sodium_ok_def dh_ok_def)
  have "honest_keys ?N n ?keys" using n by (simp add: honest_keys_def)
  then obtain A blob where layer: "length A = 32"
      "decrypt ?N (lib_evp L) (server_channel ?keys) aes_gcm blob A = Inr []" "length blob \<le> 40"
    by (rule seal_layer [OF assms, of n ?keys aes_gcm "[]" undefined]) auto
  obtain md where md: "js_parse (lib_js L) md = Some (js_strings (lib_js L) (entry_members (lib_ox L) aes_gcm A))"
    using entry_dump [OF assms layer(1)] by metis
  have "opens_to L aes_gcm [?keys] A blob [] \<lparr>junk_payload = [],
      transformReply = (\<lambda>p. encrypt ?N (lib_evp L) (server_channel ?keys) aes_gcm p A)\<rparr>"
    using layer by (intro opens_to_core [OF assms]) auto
  from opens_toD [OF this members_distinct(2) members_lookup(4,5) md]
  obtain junk where "ParseJunk L ?keys (json_frame (lib_ox L) blob md) = Inr junk"
    by (auto simp: ebind_eq_Inr)
  then have "py_parse_junk L (JunkDecrypter ?keys) (json_frame (lib_ox L) blob md) = Inr junk" by simp
  moreover have "py_Parser (fst ?keys) ?sk = Inr (Some (JunkDecrypter ?keys))"
    using pk by (simp add: py_Parser_def set_key_spec JunkParser_keys_def)
  ultimately show ?thesis using that by blast
qed

subsection \<open>Properties\<close>

text \<open>
  The Python wrappers keep the assertions of the XEd25519 code out of reach: whatever bytes Python
  passes, \<open>sign\<close> and \<open>verify\<close> return or throw, an argument of the wrong size being refused with its
  name and the size expected before the library is called.
\<close>

theorem py_xed25519_never_aborts:
  "is_defined (fst (py_xed_sign N D H privkey msg rng)) \<and>
   is_defined (py_xed_verify F H signature pub msg) \<and>
   (length privkey \<noteq> 32 \<longrightarrow> py_xed_sign N D H privkey msg rng =
      (Inl (Invalid_Argument (str ''Invalid curve25519_privkey value: expected 32 bytes'')), rng))"
proof -
  have "std_to_string 32 = str ''32''"
    by (simp add: std_to_string.simps str_def)
  then show ?thesis
    by (auto simp: py_xed_sign_def py_xed_verify_def uview_def xed_sign_def xed_verify_def lift_apply
        sbind_def ebind_def Let_def str_def split: prod.splits)
qed

theorem py_xed25519_never_aborts_witness:
  "py_xed_sign ref_sodium ref_ed ref_xhashes [1, 2] [] 0 =
    (Inl (Invalid_Argument (str ''Invalid curve25519_privkey value: expected 32 bytes'')), 0)"
  using py_xed25519_never_aborts [of ref_sodium ref_ed ref_xhashes "[1, 2]" "[]" 0 ref_fe "[]" "[]"] by simp

text \<open>
  A consensus made from Python cannot run into the missing-seeds exception of \<open>FetchAll\<close>: an empty
  list is refused at construction, and otherwise the fetcher gets every seed, duplicates merged,
  and its first \<open>FetchAll\<close> throws only where the seed it picks is not an address.
\<close>

theorem PyDirectConsensus_seeds:
  assumes "place_ok place" and "draw_ok draw"
  shows "(py_seeds = [] \<longrightarrow> PyDirectConsensus place py_seeds
      = Inl (Invalid_Argument (str ''cannot use empty seed node list''))) \<and>
    (py_seeds \<noteq> [] \<longrightarrow> (\<exists>c. PyDirectConsensus place py_seeds = Inr (Some c) \<and>
      set (seeds (CreateNodeFetcher c)) = set py_seeds \<and>
      (\<exists>a \<in> set py_seeds. fst (ObtainConnection M draw (CreateNodeFetcher c) w g)
        = (case mq_address M a of None \<Rightarrow> Inl Address_Error | Some x \<Rightarrow> Inr (fst (mq_connect M x w))))))"
proof (intro conjI impI)
  assume ne: "py_seeds \<noteq> []"
  let ?ss = "fold (\<lambda>s xs. uset_insert place (=) xs s) py_seeds []"
  obtain s rest where ss: "?ss = s # rest"
    using fold_insert_nonempty [OF assms(1), of py_seeds "[]"] ne by (metis neq_Nil_conv)
  let ?c = "\<lparr>consensus_seeds = ?ss\<rparr>"
  have c: "PyDirectConsensus place py_seeds = Inr (Some ?c)"
    using ne by (simp add: PyDirectConsensus_def Consensus_direct_oxenmq_def SeedNodes_def)
  have set_ss: "set ?ss = set py_seeds" using fold_insert_set [OF assms(1), of py_seeds "[]"] by simp
  then have "s \<in> set py_seeds" unfolding ss by (metis list.set_intros(1))
  moreover have "fst (ObtainConnection M draw (CreateNodeFetcher ?c) w g)
      = (case mq_address M s of None \<Rightarrow> Inl Address_Error | Some x \<Rightarrow> Inr (fst (mq_connect M x w)))"
    using pick_random_value [OF assms(2), of "parse_address M" ?ss g] unfolding ss
    by (auto simp: ObtainConnection_def CreateNodeFetcher_def parse_address_def
        split: prod.splits sum.splits option.splits)
  ultimately show "\<exists>c. PyDirectConsensus place py_seeds = Inr (Some c) \<and>
      set (seeds (CreateNodeFetcher c)) = set py_seeds \<and>
      (\<exists>a \<in> set py_seeds. fst (ObtainConnection M draw (CreateNodeFetcher c) w g)
        = (case mq_address M a of None \<Rightarrow> Inl Address_Error | Some x \<Rightarrow> Inr (fst (mq_connect M x w))))"
    using c set_ss by (intro exI [of _ ?c]) (auto simp: CreateNodeFetcher_def)
qed (simp add: PyDirectConsensus_def)

theorem PyDirectConsensus_seeds_witness:
  "\<exists>c. PyDirectConsensus place_back [[65], [66], [65]] = Inr (Some c) \<and>
    set (seeds (CreateNodeFetcher c)) = {[65], [66]}"
  using PyDirectConsensus_seeds [OF place_ok_examples(2) prng_draw_ok [of ref_sodium],
      of "[[65], [66], [65]]" ref_mq 0 0]
  by (auto simp: insert_commute)

text \<open>
  A fetcher made from Python refers to the OxenMQ of the \<open>Direct\<close> object it came from: while that
  object lives \<open>fetch_all\<close> is the library's \<open>FetchAll\<close> with the seeds given to it; once Python has
  dropped it, which nothing prevents, \<open>fetch_all\<close> has no defined behaviour.
\<close>

theorem py_fetcher_outlives_Direct:
  assumes "py_Direct place d py_seeds h = Inr h1" and "py_make_node_fetcher d i h1 = Inr h2"
  shows "py_fetch_all X J M place' mem draw i (py_drop_Direct d h2) w g
      = (Inl (Undefined ''use of a destroyed OxenMQ''), py_drop_Direct d h2, w, g) \<and>
    (\<exists>c. PyDirectConsensus place py_seeds = Inr (Some c) \<and>
      fst (py_fetch_all X J M place' mem draw i h2 w g)
        = fst (FetchAll X J M place' mem draw (CreateNodeFetcher c) w g))"
proof -
  obtain c where c: "PyDirectConsensus place py_seeds = Inr c" "py_directs h1 = (py_directs h)(d := c)"
    using assms(1) by (auto simp: py_Direct_def ebind_eq_Inr)
  then obtain c' where "c = Some c'" "h2 = h1\<lparr>py_fetchers := (py_fetchers h1)(i \<mapsto> (d, CreateNodeFetcher c'))\<rparr>"
    using assms(2) by (auto simp: py_make_node_fetcher_def split: option.splits)
  with c show ?thesis
    by (auto simp: py_fetch_all_def py_drop_Direct_def split: prod.splits)
qed

theorem py_fetcher_outlives_Direct_witness:
  "\<exists>h2 :: nat py_heap. py_fetchers h2 3 = Some (7, CreateNodeFetcher \<lparr>consensus_seeds = [[65]]\<rparr>) \<and>
    fst (py_fetch_all ref_oxenc ref_json ref_mq place_back (\<lambda>i. ref_node) (prng_draw ref_sodium) 3
      (py_drop_Direct 7 h2) 0 0) = Inl (Undefined ''use of a destroyed OxenMQ'')"
proof -
  define h :: "nat py_heap" where "h = \<lparr>py_directs = Map.empty, py_fetchers = Map.empty, py_selectors = Map.empty\<rparr>"
  have d: "py_Direct place_back 7 [[65]] h
      = Inr (h\<lparr>py_directs := [7 \<mapsto> \<lparr>consensus_seeds = [[65]]\<rparr>]\<rparr>)"
    by (simp add: h_def py_Direct_def PyDirectConsensus_def Consensus_direct_oxenmq_def SeedNodes_def
        uset_insert_def place_back_def)
  obtain h2 where f: "py_make_node_fetcher 7 3 (h\<lparr>py_directs := [7 \<mapsto> \<lparr>consensus_seeds = [[65]]\<rparr>]\<rparr>) = Inr h2"
    and "py_fetchers h2 3 = Some (7, CreateNodeFetcher \<lparr>consensus_seeds = [[65]]\<rparr>)"
    by (auto simp: py_make_node_fetcher_def)
  with py_fetcher_outlives_Direct [OF d f, of ref_oxenc ref_json ref_mq place_back "\<lambda>i. ref_node"
      "prng_draw ref_sodium" 0 0] show ?thesis by auto
qed

text \<open>
  A fetcher made from Python has to live until its reply: \<open>fetch_all\<close> leaves a callback that refers
  to it and does not keep it. While the object lives the callback is the library's; once Python has
  dropped it, a reply with a node list calls a member function of a destroyed object, which the
  \<open>catch (...)\<close> around it does not stop, and only failed replies are still handed over.
\<close>

theorem py_fetcher_dropped:
  assumes "py_fetch_all X J M place mem draw i h w g = (Inr (Requested c meth body f), h', w', g')"
  shows "py_fetch_reply X J place mem i h' = f \<and>
    py_fetch_reply X J place mem i (py_drop_fetcher i h') True (status # list # rest)
      = Inl (Undefined ''use of a destroyed fetcher'') \<and>
    py_fetch_reply X J place mem i (py_drop_fetcher i h') False msgs = Inr []"
proof -
  obtain d f0 f1 where "py_fetchers h i = Some (d, f0)" "h' = h\<lparr>py_fetchers := (py_fetchers h)(i \<mapsto> (d, f1))\<rparr>"
      "f = fetch_reply X J place mem"
    using assms
    by (auto simp: py_fetch_all_def FetchAll_def ebind_eq_Inr split: option.splits prod.splits if_splits)
  then show ?thesis
    by (auto simp: py_fetch_reply_def py_drop_fetcher_def fetch_reply_def fun_eq_iff)
qed

theorem py_fetcher_dropped_witness:
  "\<exists>h' :: nat py_heap. py_fetch_reply ref_oxenc ref_json place_back (\<lambda>i. ref_node) 3 (py_drop_fetcher 3 h') True
    [str ''200'', jenc ref_list_json] = Inl (Undefined ''use of a destroyed fetcher'')"
proof -
  define h :: "nat py_heap" where "h = \<lparr>py_directs = [7 \<mapsto> \<lparr>consensus_seeds = [[65]]\<rparr>],
    py_fetchers = [3 \<mapsto> (7, \<lparr>seeds = [[65]], conn = Some 4\<rparr>)], py_selectors = Map.empty\<rparr>"
  have "\<exists>body. RPCBody ref_json = Inr body" by (rule ref_RPCBody)
  then obtain body where "py_fetch_all ref_oxenc ref_json ref_mq place_back (\<lambda>i. ref_node) (prng_draw ref_sodium) 3 h 0 0
      = (Inr (Requested 4 RPCMethod body (fetch_reply ref_oxenc ref_json place_back (\<lambda>i. ref_node))), h, 0, 0)"
    by (auto simp: py_fetch_all_def FetchAll_def h_def)
  from py_fetcher_dropped [OF this] show ?thesis by blast
qed

end
