(* ===== verification/Py_Module.thy ===== *)
theory Py_Module
  imports Py_Bindings
begin

text \<open>
  The Python module \<open>pyonionreq\<close> as a whole (pybind/): which C++ classes its initialisation registers
  with pybind11, which functions it defines with which argument and result types, and what a Python
  program can get hold of by calling them. What the functions do is in \<open>Py_Bindings\<close>; here is what
  can be passed to them and what comes back.
\<close>

subsection \<open>Types and values\<close>

datatype cpp_class =
    Class_SNodeInfo
  | Class_SOGSInfo
  | Class_OnionPath
  | Class_OnionPayload
  | Class_ed25519_pubkey
  | Class_PyOnionMaker
  | Class_Holder_NodeListFetcher
  | Class_Holder_PathSelection
  | Class_PyDirectConsensus
  | Class_Junk
  | Class_JunkParser

datatype cpp_type =
    Cpp_void
  | Cpp_bool
  | Cpp_bytes
  | Cpp_string
  | Cpp_class cpp_class
  | Cpp_vector cpp_type
  | Cpp_umap cpp_type cpp_type
  | Cpp_variant "cpp_type list"
  | Cpp_function "cpp_type list"

text \<open>An instance of a class of the module counts as its class only.\<close>

datatype py_value =
    Py_None
  | Py_bool bool
  | Py_bytes bytes
  | Py_str bytes
  | Py_callable
  | Py_list "py_value list"
  | Py_dict "(py_value \<times> py_value) list"
  | Py_object cpp_class

record py_function =
  py_name :: string
  py_args :: "cpp_type list"
  py_result :: cpp_type

record py_module =
  py_classes :: "cpp_class list"
  py_functions :: "py_function list"

subsection \<open>pybind11\<close>

text \<open>
  The registrations, each a change of the module: a class, a function or constructor, a method
  (whose first argument is the object), a member to read, a member to read and write.
\<close>

definition py_class :: "cpp_class \<Rightarrow> py_module \<Rightarrow> py_module" where
  "py_class c pm = pm\<lparr>py_classes := py_classes pm @ [c]\<rparr>"

definition py_def :: "string \<Rightarrow> cpp_type list \<Rightarrow> cpp_type \<Rightarrow> py_module \<Rightarrow> py_module" where
  "py_def name args res pm =
     pm\<lparr>py_functions := py_functions pm @ [\<lparr>py_name = name, py_args = args, py_result = res\<rparr>]\<rparr>"

definition def_method :: "cpp_class \<Rightarrow> string \<Rightarrow> cpp_type list \<Rightarrow> cpp_type \<Rightarrow> py_module \<Rightarrow> py_module" where
  "def_method c name args res = py_def name (Cpp_class c # args) res"

definition def_readonly :: "cpp_class \<Rightarrow> string \<Rightarrow> cpp_type \<Rightarrow> py_module \<Rightarrow> py_module" where
  "def_readonly c name t = py_def name [Cpp_class c] t"

definition def_readwrite :: "cpp_class \<Rightarrow> string \<Rightarrow> cpp_type \<Rightarrow> py_module \<Rightarrow> py_module" where
  "def_readwrite c name t pm = py_def (name @ ''='') [Cpp_class c, t] Cpp_void (def_readonly c name t pm)"

definition in_order :: "(py_module \<Rightarrow> py_module) list \<Rightarrow> py_module \<Rightarrow> py_module" where
  "in_order steps pm = fold (\<lambda>step pm. step pm) steps pm"

text \<open>
  The conversions are a parameter: \<open>pb_loads R t v\<close> if \<open>v\<close> is accepted for an argument of type \<open>t\<close>,
  \<open>pb_casts R t v\<close> if a C++ value of type \<open>t\<close> can become \<open>v\<close> in Python, where the registered classes
  are \<open>R\<close>. The contract is pybind11's documentation: an instance is accepted for its class, and a
  C++ object handed to Python, only if the class is registered; containers are converted element by
  element; a byte string is a \<open>bytes\<close> object, a \<open>std::string\<close> is made from \<open>bytes\<close> or \<open>str\<close> and becomes a \<open>str\<close>.
\<close>

record pybind =
  pb_loads :: "cpp_class list \<Rightarrow> cpp_type \<Rightarrow> py_value \<Rightarrow> bool"
  pb_casts :: "cpp_class list \<Rightarrow> cpp_type \<Rightarrow> py_value \<Rightarrow> bool"

definition loads_ok :: "(cpp_type \<Rightarrow> py_value \<Rightarrow> bool) \<Rightarrow> cpp_class list \<Rightarrow> bool" where
  "loads_ok L R \<longleftrightarrow>
     (\<forall>c v. L (Cpp_class c) v \<longleftrightarrow> v = Py_object c \<and> c \<in> set R) \<and>
     (\<forall>v. L Cpp_bytes v \<longleftrightarrow> (\<exists>b. v = Py_bytes b)) \<and>
     (\<forall>b. L Cpp_string (Py_bytes b)) \<and>
     (\<forall>t v. L (Cpp_vector t) v \<longleftrightarrow> (\<exists>vs. v = Py_list vs \<and> list_all (L t) vs)) \<and>
     (\<forall>k t v. L (Cpp_umap k t) v \<longleftrightarrow> (\<exists>kvs. v = Py_dict kvs \<and> list_all (\<lambda>(a, b). L k a \<and> L t b) kvs)) \<and>
     (\<forall>ts v. L (Cpp_variant ts) v \<longleftrightarrow> list_ex (\<lambda>t. L t v) ts) \<and>
     (\<forall>ts. L (Cpp_function ts) Py_callable)"

definition casts_ok :: "(cpp_type \<Rightarrow> py_value \<Rightarrow> bool) \<Rightarrow> cpp_class list \<Rightarrow> bool" where
  "casts_ok C R \<longleftrightarrow>
     (\<forall>c v. C (Cpp_class c) v \<longleftrightarrow> v = Py_object c \<and> c \<in> set R) \<and>
     (\<forall>v. C Cpp_void v \<longleftrightarrow> v = Py_None) \<and>
     (\<forall>v. C Cpp_bool v \<longleftrightarrow> (\<exists>b. v = Py_bool b)) \<and>
     (\<forall>v. C Cpp_bytes v \<longleftrightarrow> (\<exists>b. v = Py_bytes b)) \<and>
     (\<forall>v. C Cpp_string v \<longrightarrow> (\<exists>s. v = Py_str s)) \<and>
     (\<forall>t v. C (Cpp_vector t) v \<longleftrightarrow> (\<exists>vs. v = Py_list vs \<and> list_all (C t) vs)) \<and>
     (\<forall>k t v. C (Cpp_umap k t) v \<longleftrightarrow> (\<exists>kvs. v = Py_dict kvs \<and> list_all (\<lambda>(a, b). C k a \<and> C t b) kvs)) \<and>
     (\<forall>ts v. C (Cpp_variant ts) v \<longleftrightarrow> list_ex (\<lambda>t. C t v) ts)"

definition pybind_ok :: "pybind \<Rightarrow> bool" where
  "pybind_ok B \<longleftrightarrow> (\<forall>R. loads_ok (pb_loads B R) R \<and> casts_ok (pb_casts B R) R)"

subsection \<open>The registrations of the module\<close>

definition Common_Init :: "py_module \<Rightarrow> py_module" where
  "Common_Init = in_order
     [py_class Class_SNodeInfo,
      py_class Class_SOGSInfo,
      py_class Class_OnionPath,
        def_readwrite Class_OnionPath ''OnionPath.hops'' (Cpp_vector (Cpp_class Class_SNodeInfo)),
        def_readwrite Class_OnionPath ''OnionPath.remote''
          (Cpp_variant [Cpp_class Class_SNodeInfo, Cpp_class Class_SOGSInfo]),
      py_class Class_OnionPayload,
        def_readonly Class_OnionPayload ''OnionPayload.ciphertext'' Cpp_string,
        def_readonly Class_OnionPayload ''OnionPayload.path'' (Cpp_class Class_OnionPath)]"

definition Transport_Init :: "py_module \<Rightarrow> py_module" where
  "Transport_Init pm = pm"

definition OnionMaker_Init :: "py_module \<Rightarrow> py_module" where
  "OnionMaker_Init = in_order
     [py_class Class_PyOnionMaker,
        def_method Class_PyOnionMaker ''onionmaker.OnionMakerBase.make_onion''
          [Cpp_string, Cpp_class Class_OnionPath] (Cpp_class Class_OnionPayload),
      py_def ''onionmaker.all_xchacha20'' [] (Cpp_class Class_PyOnionMaker),
      py_def ''onionmaker.all_aesgcm'' [] (Cpp_class Class_PyOnionMaker)]"

definition node_map :: cpp_type where
  "node_map = Cpp_umap (Cpp_class Class_ed25519_pubkey) (Cpp_class Class_SNodeInfo)"

definition Consensus_Init :: "py_module \<Rightarrow> py_module" where
  "Consensus_Init = in_order
     [py_class Class_Holder_NodeListFetcher,
        def_method Class_Holder_NodeListFetcher ''consensus.NodeFetcherBase.fetch_all''
          [Cpp_function [node_map]] Cpp_void,
      py_class Class_Holder_PathSelection,
        def_method Class_Holder_PathSelection ''consensus.PathSelectorBase.set_node_list''
          [node_map] Cpp_void,
      py_class Class_PyDirectConsensus,
        py_def ''consensus.Direct'' [Cpp_vector Cpp_string] (Cpp_class Class_PyDirectConsensus),
        def_method Class_PyDirectConsensus ''consensus.Direct.make_path_selector''
          [] (Cpp_class Class_Holder_PathSelection),
        def_method Class_PyDirectConsensus ''consensus.Direct.make_node_fetcher''
          [] (Cpp_class Class_Holder_NodeListFetcher)]"

definition Junk_Init :: "py_module \<Rightarrow> py_module" where
  "Junk_Init = in_order
     [py_class Class_Junk,
        def_method Class_Junk ''junk.Junk.transformReply'' [Cpp_bytes] Cpp_bytes,
        def_readonly Class_Junk ''junk.Junk.payload'' Cpp_bytes,
      py_class Class_JunkParser,
        py_def ''junk.Parser'' [Cpp_bytes, Cpp_bytes] (Cpp_class Class_JunkParser),
        def_method Class_JunkParser ''junk.Parser.parse_junk'' [Cpp_bytes] (Cpp_class Class_Junk)]"

definition XEd25519_Init :: "py_module \<Rightarrow> py_module" where
  "XEd25519_Init = in_order
     [py_def ''xed25519.sign'' [Cpp_bytes, Cpp_bytes] Cpp_bytes,
      py_def ''xed25519.pubkey'' [Cpp_bytes] Cpp_bytes,
      py_def ''xed25519.verify'' [Cpp_bytes, Cpp_bytes, Cpp_bytes] Cpp_bool]"

definition pyonionreq :: py_module where
  "pyonionreq = in_order
     [Common_Init, Transport_Init, OnionMaker_Init, Consensus_Init, Junk_Init, XEd25519_Init]
     \<lparr>py_classes = [], py_functions = []\<rparr>"

subsection \<open>What a Python program can get\<close>

text \<open>
  A call that throws returns nothing. \<open>py_returns L place name vs\<close>: the call of the function \<open>name\<close>
  with \<open>vs\<close>, of the types it takes, may return, going by what the function does (\<open>Py_Bindings\<close>). An
  object counts as its class only, so where the outcome depends on the object some object that can
  have been made decides. The functions not named throw nothing, or return nothing.
\<close>

fun cpp_text :: "py_value \<Rightarrow> bytes" where
  "cpp_text (Py_bytes b) = b"
| "cpp_text (Py_str s) = s"
| "cpp_text _ = []"

definition py_returns :: "('r, 'j) libs \<Rightarrow> bytes placement \<Rightarrow> string \<Rightarrow> py_value list \<Rightarrow> bool" where
  "py_returns L place name vs \<longleftrightarrow>
     (\<forall>seeds. name = ''consensus.Direct'' \<longrightarrow> vs = [Py_list seeds] \<longrightarrow>
        (\<exists>c. PyDirectConsensus place (map cpp_text seeds) = Inr c)) \<and>
     (\<forall>a b. name = ''junk.Parser'' \<longrightarrow> vs = [Py_bytes a, Py_bytes b] \<longrightarrow> (\<exists>p. py_Parser a b = Inr p)) \<and>
     (\<forall>self stuff. name = ''junk.Parser.parse_junk'' \<longrightarrow> vs = [self, Py_bytes stuff] \<longrightarrow>
        (\<exists>a b p junk. py_Parser a b = Inr (Some p) \<and> py_parse_junk L p stuff = Inr junk)) \<and>
     (\<forall>self reply. name = ''junk.Junk.transformReply'' \<longrightarrow> vs = [self, Py_bytes reply] \<longrightarrow>
        (\<exists>p stuff junk s d s'. py_parse_junk L p stuff = Inr junk \<and>
           py_transformReply junk reply s = (Inr d, s'))) \<and>
     (\<forall>self text v. name = ''onionmaker.OnionMakerBase.make_onion'' \<longrightarrow> vs = [self, text, v] \<longrightarrow>
        (\<exists>maker \<in> {py_all_xchacha20, py_all_aesgcm}. \<exists>p r om r'.
           py_make_onion L maker (cpp_text text) p r = (Inr om, r'))) \<and>
     (\<forall>a m. name = ''xed25519.sign'' \<longrightarrow> vs = [Py_bytes a, m] \<longrightarrow> length a = 32) \<and>
     (\<forall>a. name = ''xed25519.pubkey'' \<longrightarrow> vs = [Py_bytes a] \<longrightarrow> length a = 32) \<and>
     (\<forall>sig a m. name = ''xed25519.verify'' \<longrightarrow> vs = [Py_bytes sig, Py_bytes a, m] \<longrightarrow>
        length sig = 64 \<and> length a = 32)"

text \<open>
  Literals and collections of what it has; elements of collections; results of functions called with
  what it has, where the call may return (\<open>ret\<close>); what functions hand to callbacks.
\<close>

inductive py_has :: "pybind \<Rightarrow> (string \<Rightarrow> py_value list \<Rightarrow> bool) \<Rightarrow> py_module \<Rightarrow> py_value \<Rightarrow> bool" for B ret pm where
  has_None: "py_has B ret pm Py_None"
| has_bool: "py_has B ret pm (Py_bool b)"
| has_bytes: "py_has B ret pm (Py_bytes s)"
| has_str: "py_has B ret pm (Py_str s)"
| has_callable: "py_has B ret pm Py_callable"
| has_list: "(\<And>v. v \<in> set vs \<Longrightarrow> py_has B ret pm v) \<Longrightarrow> py_has B ret pm (Py_list vs)"
| has_item: "py_has B ret pm (Py_list vs) \<Longrightarrow> v \<in> set vs \<Longrightarrow> py_has B ret pm v"
| has_dict: "(\<And>k v. (k, v) \<in> set kvs \<Longrightarrow> py_has B ret pm k) \<Longrightarrow> (\<And>k v. (k, v) \<in> set kvs \<Longrightarrow> py_has B ret pm v) \<Longrightarrow>
    py_has B ret pm (Py_dict kvs)"
| has_key: "py_has B ret pm (Py_dict kvs) \<Longrightarrow> (k, v) \<in> set kvs \<Longrightarrow> py_has B ret pm k"
| has_value: "py_has B ret pm (Py_dict kvs) \<Longrightarrow> (k, v) \<in> set kvs \<Longrightarrow> py_has B ret pm v"
| has_result: "f \<in> set (py_functions pm) \<Longrightarrow> list_all2 (pb_loads B (py_classes pm)) (py_args f) vs \<Longrightarrow>
    (\<And>v. v \<in> set vs \<Longrightarrow> py_has B ret pm v) \<Longrightarrow> ret (py_name f) vs \<Longrightarrow>
    pb_casts B (py_classes pm) (py_result f) w \<Longrightarrow> py_has B ret pm w"
| has_handed: "f \<in> set (py_functions pm) \<Longrightarrow> list_all2 (pb_loads B (py_classes pm)) (py_args f) vs \<Longrightarrow>
    (\<And>v. v \<in> set vs \<Longrightarrow> py_has B ret pm v) \<Longrightarrow> Cpp_function ts \<in> set (py_args f) \<Longrightarrow> t \<in> set ts \<Longrightarrow>
    pb_casts B (py_classes pm) t w \<Longrightarrow> py_has B ret pm w"

definition py_callable_with ::
    "pybind \<Rightarrow> (string \<Rightarrow> py_value list \<Rightarrow> bool) \<Rightarrow> py_module \<Rightarrow> py_function \<Rightarrow> py_value list \<Rightarrow> bool" where
  "py_callable_with B ret pm f vs \<longleftrightarrow>
     list_all2 (pb_loads B (py_classes pm)) (py_args f) vs \<and> (\<forall>v \<in> set vs. py_has B ret pm v)"

subsection \<open>Lemmas\<close>

text \<open>
  A set \<open>S\<close> of classes is closed if no function gives an instance of a registered class outside \<open>S\<close>
  without being given one. \<open>gives R S t\<close>: values of type \<open>t\<close> become objects of \<open>S\<close> only, if Python
  values at all; \<open>blocked R t\<close>: they never do.
\<close>

fun blocked :: "cpp_class list \<Rightarrow> cpp_type \<Rightarrow> bool" where
  "blocked R (Cpp_class c) \<longleftrightarrow> c \<notin> set R"
| "blocked R t \<longleftrightarrow> False"

fun gives :: "cpp_class list \<Rightarrow> cpp_class list \<Rightarrow> cpp_type \<Rightarrow> bool" where
  "gives R S (Cpp_class c) \<longleftrightarrow> c \<in> set R \<longrightarrow> c \<in> set S"
| "gives R S (Cpp_vector t) \<longleftrightarrow> gives R S t"
| "gives R S (Cpp_umap k t) \<longleftrightarrow> blocked R k \<or> gives R S k \<and> gives R S t"
| "gives R S (Cpp_variant ts) \<longleftrightarrow> list_all (gives R S) ts"
| "gives R S (Cpp_function ts) \<longleftrightarrow> False"
| "gives R S t \<longleftrightarrow> True"

fun handed :: "cpp_type \<Rightarrow> cpp_type list" where
  "handed (Cpp_function ts) = ts"
| "handed t = []"

fun needs :: "cpp_class list \<Rightarrow> cpp_type \<Rightarrow> bool" where
  "needs S (Cpp_class c) \<longleftrightarrow> c \<notin> set S"
| "needs S t \<longleftrightarrow> False"

definition closed_classes :: "py_module \<Rightarrow> cpp_class list \<Rightarrow> bool" where
  "closed_classes pm S \<longleftrightarrow>
     list_all (\<lambda>f. list_ex (needs S) (py_args f) \<or>
       gives (py_classes pm) S (py_result f) \<and>
       list_all (list_all (gives (py_classes pm) S)) (map handed (py_args f))) (py_functions pm)"

fun within :: "cpp_class list \<Rightarrow> py_value \<Rightarrow> bool" where
  "within S (Py_object c) \<longleftrightarrow> c \<in> set S"
| "within S (Py_list vs) \<longleftrightarrow> (\<forall>v \<in> set vs. within S v)"
| "within S (Py_dict kvs) \<longleftrightarrow> (\<forall>(k, v) \<in> set kvs. within S k \<and> within S v)"
| "within S v \<longleftrightarrow> True"

lemma pybind_okD:
  assumes "pybind_ok B"
  shows "loads_ok (pb_loads B R) R" "casts_ok (pb_casts B R) R"
  using assms by (simp_all add: pybind_ok_def)

lemma casts_class:
  "pybind_ok B \<Longrightarrow> pb_casts B R (Cpp_class c) v \<longleftrightarrow> v = Py_object c \<and> c \<in> set R"
  using pybind_okD(2) [of B R] by (simp add: casts_ok_def)

lemma loads_class:
  "pybind_ok B \<Longrightarrow> pb_loads B R (Cpp_class c) v \<longleftrightarrow> v = Py_object c \<and> c \<in> set R"
  using pybind_okD(1) [of B R] by (simp add: loads_ok_def)

lemma casts_within:
  assumes "pybind_ok B" and "gives R S t" and "pb_casts B R t w"
  shows "within S w"
  using assms(2,3)
proof (induction t arbitrary: w)
  case (Cpp_class c)
  then show ?case using casts_class [OF assms(1)] by auto
next
  case (Cpp_vector t)
  then show ?case using pybind_okD(2) [OF assms(1), of R] by (auto simp: casts_ok_def list_all_iff)
next
  case (Cpp_umap k t)
  obtain kvs where w: "w = Py_dict kvs" "\<forall>(a, b) \<in> set kvs. pb_casts B R k a \<and> pb_casts B R t b"
    using Cpp_umap.prems pybind_okD(2) [OF assms(1), of R] by (auto simp: casts_ok_def list_all_iff)
  show ?case
  proof (cases "blocked R k")
    case True
    then obtain c where "k = Cpp_class c" "c \<notin> set R" by (cases k) auto
    then show ?thesis using w casts_class [OF assms(1)] by fastforce
  next
    case False
    then show ?thesis using Cpp_umap w by fastforce
  qed
next
  case (Cpp_variant ts)
  then show ?case
    using pybind_okD(2) [OF assms(1), of R] by (auto simp: casts_ok_def list_all_iff list_ex_iff)
qed (use pybind_okD(2) [OF assms(1), of R] in \<open>auto simp: casts_ok_def\<close>)

lemma needs_not_loaded:
  assumes "pybind_ok B" and "list_all2 (pb_loads B R) ts vs" and "list_ex (needs S) ts"
    and "\<forall>v \<in> set vs. within S v"
  shows False
proof -
  obtain i where i: "i < length ts" "needs S (ts ! i)"
    using assms(3) by (auto simp: list_ex_iff in_set_conv_nth)
  with assms(2) have "pb_loads B R (ts ! i) (vs ! i)" "vs ! i \<in> set vs"
    by (simp_all add: list_all2_conv_all_nth)
  then obtain t v where "needs S t" "pb_loads B R t v" "v \<in> set vs" using i by blast
  moreover from this(1) obtain c where "t = Cpp_class c" "c \<notin> set S" by (cases t) auto
  ultimately show False using assms(4) loads_class [OF assms(1)] by auto
qed

lemma closed_function:
  assumes "closed_classes pm S" and "f \<in> set (py_functions pm)"
  shows "list_ex (needs S) (py_args f) \<or> gives (py_classes pm) S (py_result f) \<and>
    (\<forall>ts t. Cpp_function ts \<in> set (py_args f) \<longrightarrow> t \<in> set ts \<longrightarrow> gives (py_classes pm) S t)"
  using assms by (fastforce simp: closed_classes_def list_all_iff)

lemma closed_classes_invariant:
  assumes "pybind_ok B" and "closed_classes pm S" and "py_has B ret pm v"
  shows "within S v"
  using assms(3)
proof (induction rule: py_has.induct)
  case (has_result f vs w)
  then show ?case
    using closed_function [OF assms(2)] needs_not_loaded [OF assms(1)] casts_within [OF assms(1)] by blast
next
  case (has_handed f vs ts t w)
  then show ?case
    using closed_function [OF assms(2)] needs_not_loaded [OF assms(1)] casts_within [OF assms(1)] by metis
qed fastforce+

text \<open>The module, evaluated.\<close>

definition reachable_classes :: "cpp_class list" where
  "reachable_classes = [Class_PyOnionMaker, Class_Holder_NodeListFetcher, Class_Holder_PathSelection,
     Class_PyDirectConsensus, Class_Junk, Class_JunkParser]"

definition dead_functions :: "string set" where
  "dead_functions = {''OnionPath.hops'', ''OnionPath.hops='', ''OnionPath.remote'', ''OnionPath.remote='',
     ''OnionPayload.ciphertext'', ''OnionPayload.path'', ''onionmaker.OnionMakerBase.make_onion''}"

lemmas module_defs = pyonionreq_def in_order_def Common_Init_def Transport_Init_def OnionMaker_Init_def
  Consensus_Init_def Junk_Init_def XEd25519_Init_def py_class_def py_def_def def_method_def def_readonly_def
  def_readwrite_def node_map_def

lemma module_classes: "py_classes pyonionreq =
    [Class_SNodeInfo, Class_SOGSInfo, Class_OnionPath, Class_OnionPayload, Class_PyOnionMaker,
     Class_Holder_NodeListFetcher, Class_Holder_PathSelection, Class_PyDirectConsensus, Class_Junk, Class_JunkParser]"
  by (simp add: module_defs)

lemma module_closed: "closed_classes pyonionreq reachable_classes"
  by (simp add: closed_classes_def reachable_classes_def module_defs)

lemma module_dead:
  "f \<in> set (py_functions pyonionreq) \<Longrightarrow>
    py_name f \<in> dead_functions \<longleftrightarrow> list_ex (needs reachable_classes) (py_args f)"
  by (auto simp: reachable_classes_def dead_functions_def module_defs)

lemma module_set_node_list:
  "f \<in> set (py_functions pyonionreq) \<Longrightarrow> py_name f = ''consensus.PathSelectorBase.set_node_list'' \<Longrightarrow>
    py_args f = [Cpp_class Class_Holder_PathSelection, node_map]"
  by (auto simp: module_defs)

lemma module_callbacks:
  "f \<in> set (py_functions pyonionreq) \<Longrightarrow> Cpp_function ts \<in> set (py_args f) \<Longrightarrow> ts = [node_map]"
  by (auto simp: module_defs)

text \<open>The arguments a Python program can always make up: of a type that asks for no unreachable object.\<close>

fun made_up :: "cpp_type \<Rightarrow> py_value option" where
  "made_up Cpp_bytes = Some (Py_bytes [])"
| "made_up Cpp_string = Some (Py_bytes [])"
| "made_up (Cpp_class c) = Some (Py_object c)"
| "made_up (Cpp_vector t) = Some (Py_list [])"
| "made_up (Cpp_umap k t) = Some (Py_dict [])"
| "made_up (Cpp_function ts) = Some Py_callable"
| "made_up t = None"

lemma module_args_made_up:
  assumes "f \<in> set (py_functions pyonionreq)" and "py_name f \<notin> dead_functions"
  shows "\<exists>vs. map made_up (py_args f) = map Some vs"
proof -
  have "list_all (\<lambda>t. made_up t \<noteq> None) (py_args f)"
    using assms by (auto simp: dead_functions_def module_defs)
  then have "map made_up (py_args f) = map Some (map (\<lambda>t. the (made_up t)) (py_args f))"
    by (auto simp: list_all_iff)
  then show ?thesis ..
qed

lemma made_up_loads:
  assumes "pybind_ok B" and "made_up t = Some v" and "\<And>c. t = Cpp_class c \<Longrightarrow> c \<in> set R"
  shows "pb_loads B R t v"
  using pybind_okD(1) [OF assms(1), of R] assms(2,3)
  by (cases t) (auto simp: loads_ok_def)

lemma made_up_has:
  assumes "made_up t = Some v" and "\<And>c. t = Cpp_class c \<Longrightarrow> py_has B ret pm (Py_object c)"
  shows "py_has B ret pm v"
  using assms by (cases t) (auto intro: py_has.intros)

lemma made_up_callable:
  assumes "pybind_ok B" and "map made_up (py_args f) = map Some vs"
    and "\<And>c. Cpp_class c \<in> set (py_args f) \<Longrightarrow> c \<in> set (py_classes pm) \<and> py_has B ret pm (Py_object c)"
  shows "py_callable_with B ret pm f vs"
proof -
  have len: "length (py_args f) = length vs"
    using assms(2) by (metis length_map)
  have "made_up (py_args f ! i) = Some (vs ! i)" if "i < length vs" for i
    using assms(2) that len by (metis nth_map)
  moreover have "py_args f ! i \<in> set (py_args f)" if "i < length vs" for i
    using that len by simp
  ultimately have "pb_loads B (py_classes pm) (py_args f ! i) (vs ! i) \<and> py_has B ret pm (vs ! i)"
    if "i < length vs" for i
    using made_up_loads [OF assms(1)] made_up_has assms(3) that by metis
  then show ?thesis
    by (auto simp: py_callable_with_def list_all2_conv_all_nth len in_set_conv_nth)
qed

lemma returned_object:
  assumes "pybind_ok B" and "\<lparr>py_name = n, py_args = args, py_result = Cpp_class c\<rparr> \<in> set (py_functions pm)"
    and "list_all2 (pb_loads B (py_classes pm)) args vs" and "\<And>v. v \<in> set vs \<Longrightarrow> py_has B ret pm v"
    and "ret n vs" and "c \<in> set (py_classes pm)"
  shows "py_has B ret pm (Py_object c)"
  by (rule has_result [OF assms(2)]) (use assms casts_class [OF assms(1)] in auto)

lemma loads_bytes:
  assumes "pybind_ok B"
  shows "pb_loads B R Cpp_bytes (Py_bytes b)" "pb_loads B R (Cpp_vector Cpp_string) (Py_list [Py_bytes b])"
  using pybind_okD(1) [OF assms, of R] by (simp_all add: loads_ok_def)

text \<open>Both node lists Python meets, the argument of \<open>set_node_list\<close> and that of the callback, are empty.\<close>

lemma no_entries: "list_all (\<lambda>(a, b). False) kvs \<longleftrightarrow> kvs = []"
  by (cases kvs) auto

lemma node_map_loads:
  assumes "pybind_ok B"
  shows "pb_loads B (py_classes pyonionreq) node_map v \<longleftrightarrow> v = Py_dict []"
proof -
  have "\<not> pb_loads B (py_classes pyonionreq) (Cpp_class Class_ed25519_pubkey) a" for a
    by (simp add: loads_class [OF assms] module_classes)
  moreover have "pb_loads B (py_classes pyonionreq) node_map v \<longleftrightarrow> (\<exists>kvs. v = Py_dict kvs \<and>
      list_all (\<lambda>(a, b). pb_loads B (py_classes pyonionreq) (Cpp_class Class_ed25519_pubkey) a \<and>
        pb_loads B (py_classes pyonionreq) (Cpp_class Class_SNodeInfo) b) kvs)"
    using pybind_okD(1) [OF assms, of "py_classes pyonionreq"] by (simp only: loads_ok_def node_map_def)
  ultimately show ?thesis by (auto simp: no_entries)
qed

lemma node_map_casts:
  assumes "pybind_ok B"
  shows "pb_casts B (py_classes pyonionreq) node_map v \<longleftrightarrow> v = Py_dict []"
proof -
  have "\<not> pb_casts B (py_classes pyonionreq) (Cpp_class Class_ed25519_pubkey) a" for a
    by (simp add: casts_class [OF assms] module_classes)
  moreover have "pb_casts B (py_classes pyonionreq) node_map v \<longleftrightarrow> (\<exists>kvs. v = Py_dict kvs \<and>
      list_all (\<lambda>(a, b). pb_casts B (py_classes pyonionreq) (Cpp_class Class_ed25519_pubkey) a \<and>
        pb_casts B (py_classes pyonionreq) (Cpp_class Class_SNodeInfo) b) kvs)"
    using pybind_okD(2) [OF assms, of "py_classes pyonionreq"] by (simp only: casts_ok_def node_map_def)
  ultimately show ?thesis by (auto simp: no_entries)
qed

lemma has_bytes_list: "py_has B ret pm (Py_list [Py_bytes b])"
  by (rule has_list) (auto intro: has_bytes)

lemma module_makers:
  "\<lparr>py_name = ''consensus.Direct'', py_args = [Cpp_vector Cpp_string],
     py_result = Cpp_class Class_PyDirectConsensus\<rparr> \<in> set (py_functions pyonionreq)"
  "\<lparr>py_name = ''junk.Parser'', py_args = [Cpp_bytes, Cpp_bytes],
     py_result = Cpp_class Class_JunkParser\<rparr> \<in> set (py_functions pyonionreq)"
  "\<lparr>py_name = ''onionmaker.all_xchacha20'', py_args = [],
     py_result = Cpp_class Class_PyOnionMaker\<rparr> \<in> set (py_functions pyonionreq)"
  "\<lparr>py_name = ''consensus.Direct.make_node_fetcher'', py_args = [Cpp_class Class_PyDirectConsensus],
     py_result = Cpp_class Class_Holder_NodeListFetcher\<rparr> \<in> set (py_functions pyonionreq)"
  "\<lparr>py_name = ''consensus.Direct.make_path_selector'', py_args = [Cpp_class Class_PyDirectConsensus],
     py_result = Cpp_class Class_Holder_PathSelection\<rparr> \<in> set (py_functions pyonionreq)"
  "\<lparr>py_name = ''junk.Parser.parse_junk'', py_args = [Cpp_class Class_JunkParser, Cpp_bytes],
     py_result = Cpp_class Class_Junk\<rparr> \<in> set (py_functions pyonionreq)"
  by (simp_all add: module_defs)

lemma reachable_objects:
  assumes "pybind_ok B" and "libs_ok L" and "c \<in> set reachable_classes"
  shows "py_has B (py_returns L place) pyonionreq (Py_object c)"
proof -
  note make = returned_object [OF assms(1), where pm = pyonionreq and ret = "py_returns L place"]
  note loads = loads_bytes [OF assms(1)] loads_class [OF assms(1)]
  obtain a b p stuff junk where j: "py_Parser a b = Inr (Some p)" "py_parse_junk L p stuff = Inr junk"
    using some_junk [OF assms(2)] by blast
  have d: "py_has B (py_returns L place) pyonionreq (Py_object Class_PyDirectConsensus)"
    by (rule make [of "''consensus.Direct''" "[Cpp_vector Cpp_string]" _ "[Py_list [Py_bytes []]]"])
      (auto simp: module_makers module_classes loads py_returns_def PyDirectConsensus_def intro: has_bytes has_bytes_list)
  have p: "py_has B (py_returns L place) pyonionreq (Py_object Class_JunkParser)"
    by (rule make [of "''junk.Parser''" "[Cpp_bytes, Cpp_bytes]" _ "[Py_bytes a, Py_bytes b]"])
      (use j in \<open>auto simp: module_makers module_classes loads py_returns_def intro: has_bytes has_bytes_list\<close>)
  have "py_has B (py_returns L place) pyonionreq (Py_object Class_PyOnionMaker)"
    by (rule make [of "''onionmaker.all_xchacha20''" "[]" _ "[]"]) (auto simp: module_makers module_classes py_returns_def)
  moreover have "py_has B (py_returns L place) pyonionreq (Py_object Class_Holder_NodeListFetcher)"
    by (rule make [of "''consensus.Direct.make_node_fetcher''" "[Cpp_class Class_PyDirectConsensus]" _
          "[Py_object Class_PyDirectConsensus]"]) (use d in \<open>auto simp: module_makers module_classes loads py_returns_def\<close>)
  moreover have "py_has B (py_returns L place) pyonionreq (Py_object Class_Holder_PathSelection)"
    by (rule make [of "''consensus.Direct.make_path_selector''" "[Cpp_class Class_PyDirectConsensus]" _
          "[Py_object Class_PyDirectConsensus]"]) (use d in \<open>auto simp: module_makers module_classes loads py_returns_def\<close>)
  moreover have "py_has B (py_returns L place) pyonionreq (Py_object Class_Junk)"
    by (rule make [of "''junk.Parser.parse_junk''" "[Cpp_class Class_JunkParser, Cpp_bytes]" _
          "[Py_object Class_JunkParser, Py_bytes stuff]"])
      (use p j in \<open>auto simp: module_makers module_classes loads py_returns_def intro: has_bytes has_bytes_list\<close>)
  ultimately show ?thesis using assms(3) d p by (auto simp: reachable_classes_def)
qed

subsection \<open>An instance of the conversions, for the witnesses\<close>

fun ref_loads :: "cpp_class list \<Rightarrow> cpp_type \<Rightarrow> py_value \<Rightarrow> bool" where
  "ref_loads R (Cpp_class c) v \<longleftrightarrow> v = Py_object c \<and> c \<in> set R"
| "ref_loads R Cpp_bytes v \<longleftrightarrow> (case v of Py_bytes b \<Rightarrow> True | _ \<Rightarrow> False)"
| "ref_loads R Cpp_string v \<longleftrightarrow> (case v of Py_bytes b \<Rightarrow> True | Py_str s \<Rightarrow> True | _ \<Rightarrow> False)"
| "ref_loads R Cpp_bool v \<longleftrightarrow> (case v of Py_bool b \<Rightarrow> True | _ \<Rightarrow> False)"
| "ref_loads R (Cpp_vector t) v \<longleftrightarrow> (case v of Py_list vs \<Rightarrow> list_all (ref_loads R t) vs | _ \<Rightarrow> False)"
| "ref_loads R (Cpp_umap k t) v \<longleftrightarrow>
     (case v of Py_dict kvs \<Rightarrow> list_all (\<lambda>(a, b). ref_loads R k a \<and> ref_loads R t b) kvs | _ \<Rightarrow> False)"
| "ref_loads R (Cpp_variant ts) v \<longleftrightarrow> list_ex (\<lambda>t. ref_loads R t v) ts"
| "ref_loads R (Cpp_function ts) v \<longleftrightarrow> v = Py_callable"
| "ref_loads R Cpp_void v \<longleftrightarrow> False"

fun ref_casts :: "cpp_class list \<Rightarrow> cpp_type \<Rightarrow> py_value \<Rightarrow> bool" where
  "ref_casts R (Cpp_class c) v \<longleftrightarrow> v = Py_object c \<and> c \<in> set R"
| "ref_casts R Cpp_void v \<longleftrightarrow> v = Py_None"
| "ref_casts R Cpp_bytes v \<longleftrightarrow> (case v of Py_bytes b \<Rightarrow> True | _ \<Rightarrow> False)"
| "ref_casts R Cpp_string v \<longleftrightarrow> (case v of Py_str b \<Rightarrow> True | _ \<Rightarrow> False)"
| "ref_casts R Cpp_bool v \<longleftrightarrow> (case v of Py_bool b \<Rightarrow> True | _ \<Rightarrow> False)"
| "ref_casts R (Cpp_vector t) v \<longleftrightarrow> (case v of Py_list vs \<Rightarrow> list_all (ref_casts R t) vs | _ \<Rightarrow> False)"
| "ref_casts R (Cpp_umap k t) v \<longleftrightarrow>
     (case v of Py_dict kvs \<Rightarrow> list_all (\<lambda>(a, b). ref_casts R k a \<and> ref_casts R t b) kvs | _ \<Rightarrow> False)"
| "ref_casts R (Cpp_variant ts) v \<longleftrightarrow> list_ex (\<lambda>t. ref_casts R t v) ts"
| "ref_casts R (Cpp_function ts) v \<longleftrightarrow> False"

definition ref_pybind :: pybind where
  "ref_pybind = \<lparr>pb_loads = ref_loads, pb_casts = ref_casts\<rparr>"

lemma ref_pybind_ok: "pybind_ok ref_pybind"
  by (simp add: pybind_ok_def loads_ok_def casts_ok_def ref_pybind_def split: py_value.splits)

subsection \<open>Properties\<close>

text \<open>
  Whatever a Python program does with the module, the objects it can get are makers, fetchers,
  selectors, \<open>Direct\<close> objects, parsers and what parsers return. It never gets a node, a SOGS server,
  a path or a payload: these classes are registered, but no constructor is, and every function that
  would return one asks for another.
\<close>

theorem py_objects:
  assumes "pybind_ok B" and "libs_ok L"
  shows "py_has B (py_returns L place) pyonionreq (Py_object c) \<longleftrightarrow>
    c \<in> {Class_PyOnionMaker, Class_Holder_NodeListFetcher, Class_Holder_PathSelection, Class_PyDirectConsensus,
      Class_Junk, Class_JunkParser}"
  using closed_classes_invariant [OF assms(1) module_closed, of "py_returns L place" "Py_object c"]
    reachable_objects [OF assms, of c]
  by (auto simp: reachable_classes_def)

theorem py_objects_witness:
  "py_has ref_pybind (py_returns ref_libs place_back) pyonionreq (Py_object Class_Junk) \<and>
   \<not> py_has ref_pybind (py_returns ref_libs place_back) pyonionreq (Py_object Class_OnionPath)"
  by (simp add: py_objects [OF ref_pybind_ok ref_libs_ok])

text \<open>
  C23. Which functions of the module can ever be called from Python, given that a call that throws
  yields no object to go on with: all but \<open>make_onion\<close> and the members of paths and
  payloads. So no onion is ever made from Python. And of those that can be called, \<open>set_node_list\<close> accepts
  no node list but the empty one, and \<open>fetch_all\<close> hands no other to its callback: the keys of the
  lists, \<open>ed25519_pubkey\<close>, are of a class that is not registered.
\<close>

theorem py_functions_callable:
  assumes "pybind_ok B" and "libs_ok L" and "f \<in> set (py_functions pyonionreq)"
  shows "((\<exists>vs. py_callable_with B (py_returns L place) pyonionreq f vs) \<longleftrightarrow>
      py_name f \<notin> {''OnionPath.hops'', ''OnionPath.hops='', ''OnionPath.remote'', ''OnionPath.remote='',
        ''OnionPayload.ciphertext'', ''OnionPayload.path'', ''onionmaker.OnionMakerBase.make_onion''}) \<and>
    (py_name f = ''consensus.PathSelectorBase.set_node_list'' \<longrightarrow> py_callable_with B (py_returns L place) pyonionreq f vs \<longrightarrow>
      vs = [Py_object Class_Holder_PathSelection, Py_dict []]) \<and>
    (Cpp_function ts \<in> set (py_args f) \<longrightarrow> ts = [node_map] \<and>
      (pb_casts B (py_classes pyonionreq) node_map w \<longrightarrow> w = Py_dict []))"
proof (intro conjI)
  have dead: "py_name f \<in> dead_functions \<longleftrightarrow> list_ex (needs reachable_classes) (py_args f)"
    by (rule module_dead [OF assms(3)])
  show "(\<exists>vs. py_callable_with B (py_returns L place) pyonionreq f vs) \<longleftrightarrow>
      py_name f \<notin> {''OnionPath.hops'', ''OnionPath.hops='', ''OnionPath.remote'', ''OnionPath.remote='',
        ''OnionPayload.ciphertext'', ''OnionPayload.path'', ''onionmaker.OnionMakerBase.make_onion''}"
    unfolding dead_functions_def [symmetric]
  proof
    assume "\<exists>vs. py_callable_with B (py_returns L place) pyonionreq f vs"
    then show "py_name f \<notin> dead_functions"
      unfolding dead py_callable_with_def
      using needs_not_loaded [OF assms(1)] closed_classes_invariant [OF assms(1) module_closed] by blast
  next
    assume "py_name f \<notin> dead_functions"
    with dead have no: "\<And>c. Cpp_class c \<in> set (py_args f) \<Longrightarrow> c \<in> set reachable_classes"
      by (force simp: list_ex_iff)
    obtain vs where "map made_up (py_args f) = map Some vs"
      using module_args_made_up [OF assms(3)] \<open>py_name f \<notin> dead_functions\<close> by blast
    then have "py_callable_with B (py_returns L place) pyonionreq f vs"
      by (rule made_up_callable [OF assms(1)])
        (use no reachable_objects [OF assms(1,2)] in \<open>auto simp: module_classes reachable_classes_def\<close>)
    then show "\<exists>vs. py_callable_with B (py_returns L place) pyonionreq f vs" ..
  qed
  show "py_name f = ''consensus.PathSelectorBase.set_node_list'' \<longrightarrow> py_callable_with B (py_returns L place) pyonionreq f vs \<longrightarrow>
      vs = [Py_object Class_Holder_PathSelection, Py_dict []]"
    using module_set_node_list [OF assms(3)]
    by (auto simp: py_callable_with_def list_all2_Cons1 loads_class [OF assms(1)] node_map_loads [OF assms(1)])
  show "Cpp_function ts \<in> set (py_args f) \<longrightarrow> ts = [node_map] \<and>
      (pb_casts B (py_classes pyonionreq) node_map w \<longrightarrow> w = Py_dict [])"
    using module_callbacks [OF assms(3)] node_map_casts [OF assms(1)] by blast
qed

theorem py_functions_callable_witness:
  "\<not> (\<exists>vs. py_callable_with ref_pybind (py_returns ref_libs place_back) pyonionreq
    \<lparr>py_name = ''onionmaker.OnionMakerBase.make_onion'',
     py_args = [Cpp_class Class_PyOnionMaker, Cpp_string, Cpp_class Class_OnionPath],
     py_result = Cpp_class Class_OnionPayload\<rparr> vs)"
  using py_functions_callable [OF ref_pybind_ok ref_libs_ok, of "\<lparr>py_name = ''onionmaker.OnionMakerBase.make_onion'',
     py_args = [Cpp_class Class_PyOnionMaker, Cpp_string, Cpp_class Class_OnionPath],
     py_result = Cpp_class Class_OnionPayload\<rparr>"]
  by (auto simp: module_defs)

end
