(* ===== verification/Py_Gil.thy ===== *)
theory Py_Gil
  imports Prelude
begin

text \<open>
  The interpreter lock of Python (the GIL) in the bindings (pybind/consensus.cpp, pybind/junk.cpp):
  \<open>fetch_all\<close> and \<open>parse_junk\<close> release it, the callback \<open>fetch_all\<close> leaves with OxenMQ takes it on one of
  OxenMQ's worker threads, \<open>set_node_list\<close> and the destructor of a \<open>Direct\<close> object run with it held.
  Any number of Python threads share a \<open>Direct\<close> and its fetcher; OxenMQ has a fixed number of workers.

  Of OxenMQ the steps use what its documentation says: the two callbacks of \<open>connect_remote\<close> and the
  callbacks of requests are run by a worker, one at a time; every connection attempt is answered and
  every request gets its callback, a failed one included; the destructor waits for its workers.
  The callbacks Python passes in return and do not fetch themselves.
\<close>

subsection \<open>Threads and workers\<close>

datatype py_call = Call_fetch_all | Call_parse_junk | Call_set_node_list | Call_drop_Direct

text \<open>
  A Python thread: waiting for the lock to go on in Python, in Python, in \<open>ObtainConnection\<close> before the
  network has answered, with its answer due on a worker (\<open>True\<close> for a connection), about to send its
  request (at once if it has a connection), about to call its callback itself because the connection failed, in that callback, in
  \<open>ParseJunk\<close>, in the destructor, ended.
\<close>

datatype py_phase =
    Py_Wants | Py_Runs
  | F_Connecting | F_Answered bool | F_Sending | F_Refused | F_Calling
  | J_Parsing | D_Destroying | Py_Ended

datatype worker_phase = W_Idle | W_Reply | W_Calling

datatype gil_owner = By_Thread nat | By_Worker nat

text \<open>A thread's second component is the calls it has still to make.\<close>

record gil_state =
  gil :: "gil_owner option"
  py_threads :: "(py_phase \<times> py_call list) list"
  in_flight :: nat
  replies :: nat
  workers :: "worker_phase list"

definition is_at :: "gil_state \<Rightarrow> nat \<Rightarrow> py_phase \<Rightarrow> py_call list \<Rightarrow> bool" where
  "is_at s i p cs \<longleftrightarrow> i < length (py_threads s) \<and> py_threads s ! i = (p, cs)"

definition goes_to :: "nat \<Rightarrow> py_phase \<Rightarrow> py_call list \<Rightarrow> gil_state \<Rightarrow> gil_state" where
  "goes_to i p cs s = s\<lparr>py_threads := (py_threads s)[i := (p, cs)]\<rparr>"

definition worker_at :: "gil_state \<Rightarrow> nat \<Rightarrow> worker_phase \<Rightarrow> bool" where
  "worker_at s k w \<longleftrightarrow> k < length (workers s) \<and> workers s ! k = w"

definition worker_to :: "nat \<Rightarrow> worker_phase \<Rightarrow> gil_state \<Rightarrow> gil_state" where
  "worker_to k w s = s\<lparr>workers := (workers s)[k := w]\<rparr>"

inductive gil_step :: "gil_state \<Rightarrow> gil_state \<Rightarrow> bool" where
  acquire: "is_at s i Py_Wants cs \<Longrightarrow> gil s = None \<Longrightarrow> gil_step s (goes_to i Py_Runs cs s\<lparr>gil := Some (By_Thread i)\<rparr>)"
| finish: "is_at s i Py_Runs [] \<Longrightarrow> gil_step s (goes_to i Py_Ended [] s\<lparr>gil := None\<rparr>)"
| fetch_new: "is_at s i Py_Runs (Call_fetch_all # cs) \<Longrightarrow>
    gil_step s (goes_to i F_Connecting cs s\<lparr>gil := None\<rparr>)"
| fetch_cached: "is_at s i Py_Runs (Call_fetch_all # cs) \<Longrightarrow>
    gil_step s (goes_to i F_Sending cs s\<lparr>gil := None\<rparr>)"
| fetch_throws: "is_at s i Py_Runs (Call_fetch_all # cs) \<Longrightarrow>
    gil_step s (goes_to i Py_Wants cs s\<lparr>gil := None\<rparr>)"
| answer: "is_at s i F_Connecting cs \<Longrightarrow> gil_step s (goes_to i (F_Answered b) cs s)"
| connected: "is_at s i (F_Answered True) cs \<Longrightarrow> worker_at s k W_Idle \<Longrightarrow> gil_step s (goes_to i F_Sending cs s)"
| refused: "is_at s i (F_Answered False) cs \<Longrightarrow> worker_at s k W_Idle \<Longrightarrow> gil_step s (goes_to i F_Refused cs s)"
| send: "is_at s i F_Sending cs \<Longrightarrow> gil_step s (goes_to i Py_Wants cs s\<lparr>in_flight := Suc (in_flight s)\<rparr>)"
| call_empty: "is_at s i F_Refused cs \<Longrightarrow> gil s = None \<Longrightarrow>
    gil_step s (goes_to i F_Calling cs s\<lparr>gil := Some (By_Thread i)\<rparr>)"
| called_empty: "is_at s i F_Calling cs \<Longrightarrow> gil_step s (goes_to i Py_Wants cs s\<lparr>gil := None\<rparr>)"
| parse: "is_at s i Py_Runs (Call_parse_junk # cs) \<Longrightarrow> gil_step s (goes_to i J_Parsing cs s\<lparr>gil := None\<rparr>)"
| parsed: "is_at s i J_Parsing cs \<Longrightarrow> gil_step s (goes_to i Py_Wants cs s)"
| set_list: "is_at s i Py_Runs (Call_set_node_list # cs) \<Longrightarrow> gil_step s (goes_to i Py_Runs cs s)"
| drop: "is_at s i Py_Runs (Call_drop_Direct # cs) \<Longrightarrow> gil_step s (goes_to i D_Destroying cs s)"
| dropped: "is_at s i D_Destroying cs \<Longrightarrow> \<forall>w \<in> set (workers s). w = W_Idle \<Longrightarrow>
    gil_step s (goes_to i Py_Runs cs s\<lparr>in_flight := 0, replies := 0\<rparr>)"
| reply: "in_flight s = Suc n \<Longrightarrow> gil_step s (s\<lparr>in_flight := n, replies := Suc (replies s)\<rparr>)"
| take_reply: "replies s = Suc n \<Longrightarrow> worker_at s k W_Idle \<Longrightarrow> gil_step s (worker_to k W_Reply s\<lparr>replies := n\<rparr>)"
| call_reply: "worker_at s k W_Reply \<Longrightarrow> gil s = None \<Longrightarrow>
    gil_step s (worker_to k W_Calling s\<lparr>gil := Some (By_Worker k)\<rparr>)"
| called_reply: "worker_at s k W_Calling \<Longrightarrow> gil_step s (worker_to k W_Idle s\<lparr>gil := None\<rparr>)"
| switch: "is_at s i Py_Runs cs \<Longrightarrow> gil_step s (goes_to i Py_Wants cs s\<lparr>gil := None\<rparr>)"

text \<open>Threads that start with their calls before them, and \<open>n\<close> idle workers.\<close>

definition gil_start :: "nat \<Rightarrow> py_call list list \<Rightarrow> gil_state" where
  "gil_start n scripts = \<lparr>gil = None, py_threads = map (Pair Py_Wants) scripts, in_flight = 0, replies = 0,
     workers = replicate n W_Idle\<rparr>"

definition gil_done :: "gil_state \<Rightarrow> bool" where
  "gil_done s \<longleftrightarrow> gil s = None \<and> in_flight s = 0 \<and> replies s = 0 \<and>
     list_all (\<lambda>(p, cs). p = Py_Ended) (py_threads s) \<and> list_all (\<lambda>w. w = W_Idle) (workers s)"

subsection \<open>Lemmas\<close>

lemmas gil_simps = is_at_def goes_to_def worker_at_def worker_to_def nth_list_update

text \<open>Who holds the lock is where one can be only with the lock.\<close>

fun needs_gil :: "py_phase \<Rightarrow> bool" where
  "needs_gil Py_Runs \<longleftrightarrow> True"
| "needs_gil F_Calling \<longleftrightarrow> True"
| "needs_gil D_Destroying \<longleftrightarrow> True"
| "needs_gil p \<longleftrightarrow> False"

definition gil_inv :: "gil_state \<Rightarrow> bool" where
  "gil_inv s \<longleftrightarrow>
     (\<forall>i. gil s = Some (By_Thread i) \<longleftrightarrow> i < length (py_threads s) \<and> needs_gil (fst (py_threads s ! i))) \<and>
     (\<forall>k. gil s = Some (By_Worker k) \<longleftrightarrow> k < length (workers s) \<and> workers s ! k = W_Calling)"

lemma gil_inv_start: "gil_inv (gil_start n scripts)"
  by (simp add: gil_inv_def gil_start_def)

lemma gil_inv_thread:
  "gil_inv s \<Longrightarrow> is_at s i p cs \<Longrightarrow> needs_gil p \<longleftrightarrow> gil s = Some (By_Thread i)"
  unfolding gil_inv_def is_at_def by (metis fst_conv)

lemma gil_inv_worker:
  "gil_inv s \<Longrightarrow> worker_at s k w \<Longrightarrow> w = W_Calling \<longleftrightarrow> gil s = Some (By_Worker k)"
  unfolding gil_inv_def worker_at_def by blast

lemma inv_moves:
  assumes "gil_inv s" and "is_at s i p cs"
  shows "needs_gil p \<longleftrightarrow> needs_gil p' \<Longrightarrow> gil_inv (goes_to i p' cs' s)"
    and "needs_gil p \<Longrightarrow> \<not> needs_gil p' \<Longrightarrow> gil_inv (goes_to i p' cs' s\<lparr>gil := None\<rparr>)"
    and "gil s = None \<Longrightarrow> needs_gil p' \<Longrightarrow> gil_inv (goes_to i p' cs' s\<lparr>gil := Some (By_Thread i)\<rparr>)"
  using assms gil_inv_thread [OF assms] by (auto simp: gil_inv_def gil_simps)

lemma inv_works:
  assumes "gil_inv s" and "worker_at s k w"
  shows "w \<noteq> W_Calling \<Longrightarrow> w' \<noteq> W_Calling \<Longrightarrow> gil_inv (worker_to k w' s)"
    and "w = W_Calling \<Longrightarrow> w' \<noteq> W_Calling \<Longrightarrow> gil_inv (worker_to k w' s\<lparr>gil := None\<rparr>)"
    and "gil s = None \<Longrightarrow> gil_inv (worker_to k W_Calling s\<lparr>gil := Some (By_Worker k)\<rparr>)"
  using assms gil_inv_worker [OF assms] by (auto simp: gil_inv_def gil_simps)

lemma gil_inv_counts [simp]:
  "gil_inv (s\<lparr>in_flight := n\<rparr>) = gil_inv s" "gil_inv (s\<lparr>replies := n\<rparr>) = gil_inv s"
  by (simp_all add: gil_inv_def)

lemma at_counts [simp]:
  "is_at (s\<lparr>in_flight := n\<rparr>) i p cs = is_at s i p cs" "is_at (s\<lparr>replies := n\<rparr>) i p cs = is_at s i p cs"
  "worker_at (s\<lparr>in_flight := n\<rparr>) k w = worker_at s k w" "worker_at (s\<lparr>replies := n\<rparr>) k w = worker_at s k w"
  by (simp_all add: gil_simps)

lemma gil_inv_step: "gil_step s s' \<Longrightarrow> gil_inv s \<Longrightarrow> gil_inv s'"
  by (induction rule: gil_step.induct) (auto intro: inv_moves inv_works)

lemma gil_inv_reachable: "gil_step\<^sup>*\<^sup>* (gil_start n scripts) s \<Longrightarrow> gil_inv s"
  by (induction rule: rtranclp_induct) (auto intro: gil_inv_start gil_inv_step)

text \<open>
  What is left to do, counted in steps: each but \<open>switch\<close> makes it less, and as long as no \<open>Direct\<close>
  object is dropped there is one to make until all is done.
\<close>

fun phase_load :: "py_phase \<Rightarrow> nat" where
  "phase_load Py_Ended = 0"
| "phase_load Py_Runs = 1"
| "phase_load Py_Wants = 2"
| "phase_load J_Parsing = 3"
| "phase_load F_Calling = 4"
| "phase_load F_Refused = 5"
| "phase_load F_Sending = 9"
| "phase_load (F_Answered b) = 11"
| "phase_load F_Connecting = 12"
| "phase_load D_Destroying = 2"

fun worker_load :: "worker_phase \<Rightarrow> nat" where
  "worker_load W_Idle = 0"
| "worker_load W_Reply = 3"
| "worker_load W_Calling = 2"

definition thread_load :: "py_phase \<times> py_call list \<Rightarrow> nat" where
  "thread_load t = phase_load (fst t) + 13 * length (snd t)"

definition load :: "gil_state \<Rightarrow> nat" where
  "load s = sum_list (map thread_load (py_threads s)) + 5 * in_flight s + 4 * replies s
     + sum_list (map worker_load (workers s))"

lemma sum_list_map_update:
  "i < length xs \<Longrightarrow> sum_list (map f (xs[i := x])) + f (xs ! i) = sum_list (map f xs) + (f x :: nat)"
  by (induction xs arbitrary: i) (auto split: nat.split simp: nth_Cons less_Suc_eq_0_disj)

lemma load_goes_to:
  assumes "is_at s i p cs"
  shows "load (goes_to i p' cs' s) + thread_load (p, cs) = load s + thread_load (p', cs')"
  using assms sum_list_map_update [of i "py_threads s" thread_load "(p', cs')"]
  by (simp add: load_def is_at_def goes_to_def)

lemma load_worker_to:
  assumes "worker_at s k w"
  shows "load (worker_to k w' s) + worker_load w = load s + worker_load w'"
  using assms sum_list_map_update [of k "workers s" worker_load w']
  by (simp add: load_def worker_at_def worker_to_def)

lemma load_counts [simp]:
  "load (s\<lparr>gil := g\<rparr>) = load s"
  "load (s\<lparr>in_flight := n\<rparr>) + 5 * in_flight s = load s + 5 * n"
  "load (s\<lparr>replies := m\<rparr>) + 4 * replies s = load s + 4 * m"
  by (simp_all add: load_def)

definition no_drop :: "gil_state \<Rightarrow> bool" where
  "no_drop s \<longleftrightarrow> (\<forall>(p, cs) \<in> set (py_threads s). p \<noteq> D_Destroying \<and> Call_drop_Direct \<notin> set cs)"

lemma no_drop_at: "no_drop s \<Longrightarrow> is_at s i p cs \<Longrightarrow> p \<noteq> D_Destroying \<and> Call_drop_Direct \<notin> set cs"
  unfolding no_drop_def is_at_def by (metis (mono_tags, lifting) case_prodD nth_mem)

lemma no_drop_goes_to:
  "no_drop s \<Longrightarrow> p \<noteq> D_Destroying \<Longrightarrow> Call_drop_Direct \<notin> set cs \<Longrightarrow> no_drop (goes_to i p cs s)"
  by (auto simp: no_drop_def goes_to_def dest!: set_update_subset_insert [THEN subsetD])

lemma no_drop_other [simp]:
  "no_drop (s\<lparr>gil := g\<rparr>) = no_drop s" "no_drop (s\<lparr>in_flight := n\<rparr>) = no_drop s"
  "no_drop (s\<lparr>replies := n\<rparr>) = no_drop s" "no_drop (worker_to k w s) = no_drop s"
  by (simp_all add: no_drop_def worker_to_def)

lemma no_drop_step: "gil_step s s' \<Longrightarrow> no_drop s \<Longrightarrow> no_drop s'"
  by (induction rule: gil_step.induct) (auto intro!: no_drop_goes_to dest: no_drop_at)

lemma length_workers_step: "gil_step s s' \<Longrightarrow> length (workers s') = length (workers s)"
  by (induction rule: gil_step.induct) (simp_all add: goes_to_def worker_to_def)

lemma load_less:
  assumes "is_at s i p cs" and "thread_load (p', cs') < thread_load (p, cs)"
  shows "load (goes_to i p' cs' s) < load s"
  using load_goes_to [OF assms(1), of p' cs'] assms(2) by linarith

lemma progress_with_gil:
  assumes "gil_inv s" and "no_drop s" and "gil s = Some h"
  shows "\<exists>s'. gil_step s s' \<and> load s' < load s"
proof (cases h)
  case (By_Thread i)
  then have h: "i < length (py_threads s)" "needs_gil (fst (py_threads s ! i))"
    using assms(1,3) unfolding gil_inv_def by blast+
  obtain p cs where pcs: "py_threads s ! i = (p, cs)" by fastforce
  then have at: "is_at s i p cs" using h by (simp add: is_at_def)
  show ?thesis
  proof (cases "p = F_Calling")
    case True
    with at have "is_at s i F_Calling cs" by simp
    from called_empty [OF this] load_less [OF this, of Py_Wants cs] show ?thesis
      by (force simp: thread_load_def)
  next
    case False
    then have run: "is_at s i Py_Runs cs" "Call_drop_Direct \<notin> set cs"
      using h pcs at no_drop_at [OF assms(2) at] by (cases p; simp)+
    show ?thesis
    proof (cases cs)
      case Nil
      then have "is_at s i Py_Runs []" using run by simp
      from finish [OF this] load_less [OF this, of Py_Ended "[]"] show ?thesis by (force simp: thread_load_def)
    next
      case (Cons c rest)
      then consider "is_at s i Py_Runs (Call_fetch_all # rest)" | "is_at s i Py_Runs (Call_parse_junk # rest)"
        | "is_at s i Py_Runs (Call_set_node_list # rest)"
        using run by (cases c) auto
      then show ?thesis
      proof cases
        case 1
        from fetch_new [OF 1] load_less [OF 1, of F_Connecting rest] show ?thesis by (force simp: thread_load_def)
      next
        case 2
        from parse [OF 2] load_less [OF 2, of J_Parsing rest] show ?thesis by (force simp: thread_load_def)
      next
        case 3
        from set_list [OF 3] load_less [OF 3, of Py_Runs rest] show ?thesis by (force simp: thread_load_def)
      qed
    qed
  qed
next
  case (By_Worker k)
  then have "worker_at s k W_Calling" using assms(1,3) unfolding gil_inv_def worker_at_def by blast
  from called_reply [OF this] load_worker_to [OF this, of W_Idle] show ?thesis by (force simp: load_def)
qed

lemma progress_thread:
  assumes "no_drop s" and "gil s = None" and "is_at s i p cs" and "\<not> needs_gil p" and "p \<noteq> Py_Ended"
    and "worker_at s k W_Idle"
  shows "\<exists>s'. gil_step s s' \<and> load s' < load s"
proof (cases p)
  case Py_Wants
  then have at: "is_at s i Py_Wants cs" using assms(3) by simp
  from acquire [OF at assms(2)] load_less [OF at, of Py_Runs cs] show ?thesis by (force simp: thread_load_def)
next
  case F_Connecting
  then have at: "is_at s i F_Connecting cs" using assms(3) by simp
  from answer [OF at] load_less [OF at, of "F_Answered True" cs] show ?thesis by (force simp: thread_load_def)
next
  case (F_Answered b)
  show ?thesis
  proof (cases b)
    case True
    then have at: "is_at s i (F_Answered True) cs" using F_Answered assms(3) by simp
    from connected [OF at assms(6)] load_less [OF at, of F_Sending cs] show ?thesis by (force simp: thread_load_def)
  next
    case False
    then have at: "is_at s i (F_Answered False) cs" using F_Answered assms(3) by simp
    from refused [OF at assms(6)] load_less [OF at, of F_Refused cs] show ?thesis by (force simp: thread_load_def)
  qed
next
  case F_Sending
  then have at: "is_at s i F_Sending cs" using assms(3) by simp
  have "load (goes_to i Py_Wants cs s\<lparr>in_flight := Suc (in_flight s)\<rparr>) + 5 * in_flight s
      = load (goes_to i Py_Wants cs s) + 5 * Suc (in_flight s)"
    by (simp add: load_def goes_to_def)
  with send [OF at] load_goes_to [OF at, of Py_Wants cs] show ?thesis by (force simp: thread_load_def)
next
  case F_Refused
  then have at: "is_at s i F_Refused cs" using assms(3) by simp
  from call_empty [OF at assms(2)] load_less [OF at, of F_Calling cs] show ?thesis by (force simp: thread_load_def)
next
  case J_Parsing
  then have at: "is_at s i J_Parsing cs" using assms(3) by simp
  from parsed [OF at] load_less [OF at, of Py_Wants cs] show ?thesis by (force simp: thread_load_def)
qed (use assms(4,5) in simp_all)

lemma progress_free:
  assumes "gil_inv s" and "no_drop s" and "workers s \<noteq> []" and "gil s = None" and "\<not> gil_done s"
  shows "\<exists>s'. gil_step s s' \<and> load s' < load s"
proof (cases "\<exists>k. worker_at s k W_Reply")
  case True
  then obtain k where "worker_at s k W_Reply" ..
  from call_reply [OF this assms(4)] load_worker_to [OF this, of W_Calling] show ?thesis by (force simp: load_def)
next
  case False
  have calling: "\<not> worker_at s k W_Calling" for k
    using gil_inv_worker [OF assms(1)] assms(4) by auto
  have idle: "w = W_Idle" if w: "w \<in> set (workers s)" for w
  proof -
    obtain k where "worker_at s k w" using w by (auto simp: in_set_conv_nth worker_at_def)
    then show ?thesis using False calling by (cases w) blast+
  qed
  have w0: "worker_at s 0 W_Idle" using idle [of "workers s ! 0"] assms(3) by (simp add: worker_at_def)
  consider n where "in_flight s = Suc n" | n where "replies s = Suc n"
    | p cs where "(p, cs) \<in> set (py_threads s)" "p \<noteq> Py_Ended"
  proof (cases "in_flight s = 0 \<and> replies s = 0")
    case True
    then have "\<not> list_all (\<lambda>(p, cs). p = Py_Ended) (py_threads s)"
      using assms(4,5) idle by (simp add: gil_done_def list_all_iff)
    then show ?thesis using that(3) by (auto simp: list_all_iff)
  next
    case False
    then show ?thesis using that(1,2) not0_implies_Suc by blast
  qed
  then show ?thesis
  proof cases
    case 1
    from reply [OF 1] show ?thesis using 1 by (force simp: load_def)
  next
    case 2
    from take_reply [OF 2 w0] load_worker_to [OF w0, of W_Reply] show ?thesis
      using 2 by (force simp: load_def worker_to_def)
  next
    case 3
    then obtain i where "is_at s i p cs" by (metis in_set_conv_nth is_at_def)
    moreover from this have "\<not> needs_gil p" using gil_inv_thread [OF assms(1)] assms(4) by simp
    ultimately show ?thesis using progress_thread [OF assms(2,4) _ _ 3(2) w0] by blast
  qed
qed

lemma gil_progress:
  assumes "gil_inv s" and "no_drop s" and "workers s \<noteq> []" and "\<not> gil_done s"
  shows "\<exists>s'. gil_step s s' \<and> load s' < load s"
  using progress_with_gil [OF assms(1,2)] progress_free [OF assms(1-3) _ assms(4)] by (cases "gil s") auto

lemma gil_finishes:
  assumes "gil_inv s" and "no_drop s" and "workers s \<noteq> []"
  shows "\<exists>s'. gil_step\<^sup>*\<^sup>* s s' \<and> gil_done s'"
  using assms
proof (induction "load s" arbitrary: s rule: less_induct)
  case less
  show ?case
  proof (cases "gil_done s")
    case False
    then obtain t where t: "gil_step s t" "load t < load s" using gil_progress less.prems by blast
    then have "gil_inv t" "no_drop t" "workers t \<noteq> []"
      using gil_inv_step no_drop_step length_workers_step [OF t(1)] less.prems by auto
    with less.hyps [OF t(2)] t(1) show ?thesis by (meson converse_rtranclp_into_rtranclp)
  qed blast
qed

lemma workers_reachable: "gil_step\<^sup>*\<^sup>* (gil_start n scripts) s \<Longrightarrow> length (workers s) = n"
  by (induction rule: rtranclp_induct) (simp_all add: gil_start_def length_workers_step)

lemma no_drop_reachable:
  assumes "gil_step\<^sup>*\<^sup>* (gil_start n scripts) s" and "\<forall>cs \<in> set scripts. Call_drop_Direct \<notin> set cs"
  shows "no_drop s"
  using assms(1)
proof (induction rule: rtranclp_induct)
  case base
  then show ?case using assms(2) by (auto simp: no_drop_def gil_start_def)
qed (rule no_drop_step)

text \<open>A destructor that waits for a worker that waits for the lock.\<close>

definition gil_deadlock :: "nat \<Rightarrow> py_call list \<Rightarrow> nat \<Rightarrow> gil_state \<Rightarrow> bool" where
  "gil_deadlock i cs k s \<longleftrightarrow> gil_inv s \<and> is_at s i D_Destroying cs \<and> worker_at s k W_Reply"

lemma gil_deadlock_owner: "gil_deadlock i cs k s \<Longrightarrow> gil s = Some (By_Thread i)"
  using gil_inv_thread [of s i D_Destroying cs] by (simp add: gil_deadlock_def)

lemma gil_deadlock_step:
  assumes "gil_deadlock i cs k s" and "gil_step s s'"
  shows "gil_deadlock i cs k s'"
proof -
  have "is_at s i D_Destroying cs" and "worker_at s k W_Reply" and "gil_inv s"
    using assms(1) by (auto simp: gil_deadlock_def)
  with assms(2) gil_deadlock_owner [OF assms(1)] have "is_at s' i D_Destroying cs \<and> worker_at s' k W_Reply"
    by (induction rule: gil_step.induct) (auto simp: gil_simps dest: bspec [OF _ nth_mem])
  with gil_inv_step [OF assms(2) \<open>gil_inv s\<close>] show ?thesis by (simp add: gil_deadlock_def)
qed

lemma gil_deadlock_steps: "gil_step\<^sup>*\<^sup>* s s' \<Longrightarrow> gil_deadlock i cs k s \<Longrightarrow> gil_deadlock i cs k s'"
  by (induction rule: rtranclp_induct) (auto intro: gil_deadlock_step)

text \<open>A run to such a state: one thread fetches and drops its \<open>Direct\<close> object while the reply is at hand.\<close>

definition lone :: "gil_owner option \<Rightarrow> py_phase \<Rightarrow> py_call list \<Rightarrow> nat \<Rightarrow> nat \<Rightarrow> worker_phase \<Rightarrow> gil_state" where
  "lone g p cs n m w = \<lparr>gil = g, py_threads = [(p, cs)], in_flight = n, replies = m, workers = [w]\<rparr>"

lemma lone_run:
  "gil_step\<^sup>*\<^sup>* (gil_start 1 [[Call_fetch_all, Call_drop_Direct]]) (lone (Some (By_Thread 0)) D_Destroying [] 0 0 W_Reply)"
proof -
  note eqs = lone_def gil_simps gil_start_def
  let ?t = "Some (By_Thread 0)"
  let ?fd = "[Call_fetch_all, Call_drop_Direct]" and ?d = "[Call_drop_Direct]"
  have "gil_step (gil_start 1 [?fd]) (lone ?t Py_Runs ?fd 0 0 W_Idle)"
    using acquire [of "gil_start 1 [?fd]" 0 ?fd] by (simp add: eqs)
  moreover have "gil_step (lone ?t Py_Runs ?fd 0 0 W_Idle) (lone None F_Connecting ?d 0 0 W_Idle)"
    using fetch_new [of "lone ?t Py_Runs ?fd 0 0 W_Idle" 0 ?d] by (simp add: eqs)
  moreover have "gil_step (lone None F_Connecting ?d 0 0 W_Idle) (lone None (F_Answered True) ?d 0 0 W_Idle)"
    using answer [of "lone None F_Connecting ?d 0 0 W_Idle" 0 ?d True] by (simp add: eqs)
  moreover have "gil_step (lone None (F_Answered True) ?d 0 0 W_Idle) (lone None F_Sending ?d 0 0 W_Idle)"
    using connected [of "lone None (F_Answered True) ?d 0 0 W_Idle" 0 ?d 0] by (simp add: eqs)
  moreover have "gil_step (lone None F_Sending ?d 0 0 W_Idle) (lone None Py_Wants ?d 1 0 W_Idle)"
    using send [of "lone None F_Sending ?d 0 0 W_Idle" 0 ?d] by (simp add: eqs)
  moreover have "gil_step (lone None Py_Wants ?d 1 0 W_Idle) (lone ?t Py_Runs ?d 1 0 W_Idle)"
    using acquire [of "lone None Py_Wants ?d 1 0 W_Idle" 0 ?d] by (simp add: eqs)
  moreover have "gil_step (lone ?t Py_Runs ?d 1 0 W_Idle) (lone ?t Py_Runs ?d 0 1 W_Idle)"
    using reply [of "lone ?t Py_Runs ?d 1 0 W_Idle" 0] by (simp add: eqs)
  moreover have "gil_step (lone ?t Py_Runs ?d 0 1 W_Idle) (lone ?t Py_Runs ?d 0 0 W_Reply)"
    using take_reply [of "lone ?t Py_Runs ?d 0 1 W_Idle" 0 0] by (simp add: eqs)
  moreover have "gil_step (lone ?t Py_Runs ?d 0 0 W_Reply) (lone ?t D_Destroying [] 0 0 W_Reply)"
    using gil_step.drop [of "lone ?t Py_Runs ?d 0 0 W_Reply" 0 "[]"] by (simp add: eqs)
  ultimately show ?thesis by (meson converse_rtranclp_into_rtranclp rtranclp.rtrancl_refl)
qed

subsection \<open>Properties\<close>

text \<open>
  C22. The lock of the Python interpreter blocks nobody for ever as long as no \<open>Direct\<close> object is dropped:
  whatever has happened, with any number of Python threads that fetch, parse and set node lists and
  any number of OxenMQ workers but none, there is a way on to the end of all calls, with every
  reply handed to its callback. That \<open>fetch_all\<close> releases the lock is needed for it: the worker
  that brings the connection may be busy with a callback that waits for the lock.
\<close>

theorem python_calls_finish:
  assumes "0 < n" and "\<forall>cs \<in> set scripts. Call_drop_Direct \<notin> set cs"
    and "gil_step\<^sup>*\<^sup>* (gil_start n scripts) s"
  shows "\<exists>s'. gil_step\<^sup>*\<^sup>* s s' \<and> gil_done s'"
  using gil_finishes [OF gil_inv_reachable [OF assms(3)] no_drop_reachable [OF assms(3,2)]]
    workers_reachable [OF assms(3)] assms(1) by force

theorem python_calls_finish_witness:
  "\<exists>s'. gil_step\<^sup>*\<^sup>* (gil_start 1 [[Call_fetch_all, Call_parse_junk], [Call_fetch_all, Call_set_node_list]]) s' \<and> gil_done s'"
  by (rule python_calls_finish [of 1 "[[Call_fetch_all, Call_parse_junk], [Call_fetch_all, Call_set_node_list]]"])
    simp_all

text \<open>
  C27. Dropping a \<open>Direct\<close> object can stop the program for good: its destructor runs with the lock held
  and waits for OxenMQ's workers; if one of them is about to call a Python callback, it waits for
  the lock. From then on the destructor does not return, the callback is not called, and no
  Python thread runs.
\<close>

theorem drop_deadlocks:
  assumes "gil_step\<^sup>*\<^sup>* (gil_start n scripts) s" and "is_at s i D_Destroying cs" and "worker_at s k W_Reply"
    and "gil_step\<^sup>*\<^sup>* s s'"
  shows "is_at s' i D_Destroying cs \<and> worker_at s' k W_Reply \<and> gil s' = Some (By_Thread i)"
proof -
  have "gil_deadlock i cs k s" using assms(2,3) gil_inv_reachable [OF assms(1)] by (simp add: gil_deadlock_def)
  then have "gil_deadlock i cs k s'" using assms(4) gil_deadlock_steps by blast
  then show ?thesis using gil_deadlock_owner by (auto simp: gil_deadlock_def)
qed

theorem drop_deadlocks_witness:
  "\<exists>s. gil_step\<^sup>*\<^sup>* (gil_start 1 [[Call_fetch_all, Call_drop_Direct]]) s \<and>
    (\<nexists>s'. gil_step\<^sup>*\<^sup>* s s' \<and> gil_done s')"
proof -
  let ?s = "lone (Some (By_Thread 0)) D_Destroying [] 0 0 W_Reply"
  have at: "is_at ?s 0 D_Destroying []" "worker_at ?s 0 W_Reply" by (simp_all add: lone_def gil_simps)
  have "\<not> gil_done s'" if "gil_step\<^sup>*\<^sup>* ?s s'" for s'
    using drop_deadlocks [OF lone_run at that] by (simp add: gil_done_def)
  then show ?thesis using lone_run by blast
qed

end
