(* ===== verification/Spec2Isabelle.thy ===== *)
theory Spec2Isabelle
  imports Onion_Reference Selector_Threads Transport_Locking Fetcher_Threads Client Signature
    Evp_Context Py_Module Py_Gil
begin

text \<open>
  A model of libonionrequests (C++), the library that makes, sends, takes apart and answers onion
  requests on the Oxen service node network, with the theorems that make it correct.

  The program. A client fetches the list of service nodes (\<open>onionreq/consensus.cpp\<close>, the fetcher),
  selects a path of nodes from it (the path selector there, \<open>random.hpp\<close>), wraps its payload in one
  layer of encryption per hop (\<open>onion_maker.cpp\<close>, \<open>channel_encryption.cpp\<close>) and hands the result to
  a transport (\<open>transport.cpp\<close>), which sends it to the first hop over OxenMQ. Every hop takes one
  layer off with the junk parser (\<open>junk.cpp\<close>); the last one encrypts a reply, which the client's
  \<open>maybeDecryptResponse\<close> opens. Keys are in \<open>key_types.*\<close>, nodes and SOGS servers in \<open>snode_info.*\<close> and
  \<open>sogs_info.*\<close>, signatures in \<open>signature.cpp\<close> and \<open>signal-xed25519.cpp\<close>, Python bindings in \<open>pybind/\<close>.

  Theories, in the order of their imports.
  \<^item> \<open>Prelude\<close>: bytes, errors as values and their sequencing, buffers with bounded writes, narrowing of
    \<open>size_t\<close>, little-endian words, decimal text.
  \<^item> \<open>Libs\<close>: oxenc, libsodium, OpenSSL and nlohmann::json as records of functions, and the contracts
    (\<open>hex_ok\<close>, \<open>dh_ok\<close>, \<open>aead_ok\<close>, \<open>evp_ok\<close>, \<open>json_ok\<close>, ...) that state what their documentation
    promises; \<open>libs_ok\<close> is their conjunction. \<open>Reference_Libs\<close> is an executable instance that satisfies
    them all; only witnesses use it. \<open>Ed_Group\<close> does the same for libsodium's ed25519 group.
  \<^item> \<open>Key_Types\<close> (\<open>key_types.hpp/cpp\<close>): keys are byte lists, of the \<open>KeyLength\<close> of their class; a key that
    starts uninitialised is an argument. Lemmas: text forms are read back (locale \<open>key_text\<close>), \<open>parse_pubkey\<close> is total.
  \<^item> \<open>Channel_Encryption\<close>: \<open>encrypt\<close> and \<open>decrypt\<close> for the three types, with buffer offsets as the code
    computes them. Locale \<open>sealed_channel\<close>, interpreted on every cipher and on the dispatch:
    what one end seals the other opens. Safety of both directions on arbitrary bytes.
  \<^item> \<open>Snode_Info\<close>, \<open>Onion\<close>: records of nodes, remotes, paths, payloads; addresses; json.
  \<^item> \<open>Junk\<close> (\<open>junk.cpp\<close>): \<open>ParseJunk\<close> and its factories; locale \<open>frame_codec\<close> for the length prefix.
  \<^item> \<open>Onion_Maker\<close> (\<open>onion_maker.cpp\<close>): \<open>MakeOnion\<close> with its loop \<open>wrap_hops\<close> and the reply closure
    \<open>decrypt_response\<close>. \<open>Onion_Delivery\<close>: the journey \<open>peel_path\<close> of an onion along the nodes'
    parsers, which is the specification of the maker; the invariant \<open>opens_to\<close> of its loop.
    \<open>Onion_Reference\<close>: the recursive definition of an onion, and that the loop computes it.
  \<^item> \<open>Sampling\<close> (\<open>random.hpp\<close>): the generator and \<open>pick_random\<close>, over a model of the standard library's
    \<open>std::sample\<close> for forward iterators, which is selection sampling over draws.
  \<^item> \<open>Containers\<close>: unordered sets and maps in iteration order, with the position of a new element
    a parameter; locales \<open>assigning\<close> and \<open>first_wins\<close> for \<open>map[k] = v\<close> and \<open>emplace\<close>.
  \<^item> \<open>Path_Selection\<close>, \<open>Node_Fetcher\<close> (\<open>consensus.hpp/cpp\<close>): the selector's state and operations as a
    step relation with its invariants (few and distinct edges, \<open>knows_only\<close>); parsing of node lists,
    down to the bytes every key gets, connection reuse, reply handling.
  \<^item> \<open>Messaging\<close>, \<open>Transport\<close> (\<open>transport.cpp\<close>): OxenMQ as a parameter; sending sequentially and the
    interleaving of threads between the two critical sections of \<open>ObtainConnectionTo\<close>: one connection
    per node, at most three steps a thread. This is the abstract object: it has no lock.
  \<^item> \<open>Locking\<close>: an object with a \<open>std::mutex\<close>, used by any number of threads that interleave between the
    statements of its locked sections (\<open>machine_step\<close>). The locale \<open>locked_object\<close> asks for one law, that
    a section run alone does what its operation promises, and gives mutual exclusion and
    linearizability; \<open>ending_object\<close> adds that sections end, and gives termination of the calls.
    Both are interpreted on the path selector (\<open>Selector_Threads\<close>: the functions passed to \<open>AccessList\<close>,
    against the operations of \<open>Path_Selection\<close>) and on the connection cache (\<open>Transport_Locking\<close>: the two
    scopes of \<open>ObtainConnectionTo\<close>; whole calls refine \<open>transport_step\<close> and end within 14 statements each; a thread that is connecting keeps
    nobody else from returning, because it does not hold the lock then).
  \<^item> \<open>Fetcher_Threads\<close>: \<open>ObtainConnection\<close> of the fetcher, which has no lock: the conflicting accesses of
    threads to \<open>_conn\<close>, a data race that leaves the program undefined, and when they can occur.
  \<^item> The interface \<open>Transport_Base\<close> is the locale \<open>payload_transport\<close> of \<open>Onion_Delivery\<close>: its lemma says
    that a request over a transport that keeps the one law is answered. It is interpreted on the
    OxenMQ transport (theory \<open>Transport\<close>) and on the HTTPS transport of the client (theory \<open>Client\<close>).
  \<^item> \<open>Client\<close> (\<open>tests/onionrequest.cpp\<close>): \<open>main\<close> from the fetch to the exit code, with the promise that
    carries the code and the signals that set it (\<open>client_process\<close>); \<open>network_answers\<close> is the network it
    relies on.
  \<^item> \<open>Signature\<close> (\<open>signature.cpp\<close>), \<open>XEd25519\<close> (\<open>signal-xed25519.cpp\<close>): signing and verification over the
    group contract \<open>ed_ok\<close>, whose \<open>pt n\<close> is the encoding of n times the base point. The former hash with a
    stub that aborts, which decides every call; the latter verify what they sign, from the laws of the
    field modulo \<open>fe_prime\<close> (\<open>fe_ok\<close>) and the map between the two forms of the curve (\<open>birational\<close>).
  \<^item> \<open>Py_Bindings\<close> (\<open>pybind/\<close>): the classes and functions Python sees, the argument checks made before
    the library is called, and which object outlives which (\<open>py_heap\<close>), that of the callback of \<open>fetch_all\<close> included.
  \<^item> \<open>Py_Module\<close>: the module as registered with pybind11, its classes and the types of its functions, and
    what a Python program can get hold of (\<open>py_has\<close>): an inductive closure under the calls that return
    (\<open>py_returns\<close>), bounded by a computed closed set of classes. pybind11's conversions are a parameter with a contract.
  \<^item> \<open>Py_Gil\<close>: the interpreter lock between Python threads, which release it in \<open>fetch_all\<close> and \<open>parse_junk\<close>,
    and OxenMQ's workers, which take it for callbacks: a way to the end from every reachable state,
    by a measure (\<open>load\<close>), and the deadlock of a destructor that holds it.
  \<^item> \<open>Evp_Context\<close> (\<open>channel_encryption.cpp\<close>): OpenSSL's cipher contexts as objects that are allocated, used
    and freed; the functions of \<open>Channel_Encryption\<close> over whole messages are what they compute.
  This theory holds the properties that span components: delivery of an onion, return of the
  reply, a whole request from the maker through the transport to the handler, a node list from
  the fetcher through the selector to a path, and paths handed to several threads as onions.

  Conventions. An operation that may throw returns \<open>error + 'a\<close>; \<open>Aborted\<close> and \<open>Undefined\<close> are the two
  errors no \<open>catch\<close> stops, for \<open>abort\<close> or a failed assertion and for behaviour C++ leaves undefined,
  so a safety theorem says \<open>is_defined\<close>. Randomness is a threaded state \<open>'r\<close>; the network is a threaded
  state \<open>'w\<close>. A \<open>string_view\<close> is the bytes it shows; where the code may read past its end, the bytes that lie
  behind it in its buffer are an argument too (\<open>behind\<close>), as in the decryption of a request. All recursion is structural on lists (hops, json entries, sampled ranges): there is no
  fuel, and every function is total. Sizes: messages below \<open>2\<^sup>3\<^sup>1\<close> bytes are assumed where OpenSSL takes
  an \<open>int\<close>; \<open>sendable\<close> bounds a request by 1100 bytes a layer, above the 1084 a layer can add.
  Threads: a step is one statement; what an unfinished assignment or insertion of a container looks
  like is left open; the interleaving is sequentially consistent, as C++ promises of programs without data
  races, and a data race is \<open>Undefined\<close>; the random generator's state is
  part of what the selector's lock protects, that is, nothing else draws during a section. Of
  pybind11, OpenSSL's contexts and OxenMQ's workers the models use what their documentation says,
  as contracts (\<open>pybind_ok\<close>), as the order of calls a context allows (\<open>evp_call\<close>), and as steps (\<open>gil_step\<close>).

  Not modelled: allocation failure, but for cipher contexts; logging; a promise OxenMQ never fulfils (the code would block
  forever); starvation by a mutex that is never granted;
  the statistical quality of random numbers and the secrecy of the ciphers; the
  documentation strings given to pybind11 and how Python's call syntax assigns values to
  parameters; the SNodeInfo constructor and the JunkParser factory that
  are declared and defined nowhere; the empty node.js and JNI directories.
\<close>

section \<open>Properties that span components\<close>

subsection \<open>An onion reaches the end of its path, and the reply comes back\<close>

text \<open>Instances for the witnesses: a path of two honest nodes to a SOGS server.\<close>

definition ref_hop :: "byte \<Rightarrow> snode_info" where
  "ref_hop b = ref_node\<lparr>identity := replicate 32 b, onion := ref_public (replicate 32 b)\<rparr>"

definition ref_hop_keys :: "byte \<Rightarrow> x25519_keypair" where
  "ref_hop_keys b = (ref_public (replicate 32 b), replicate 32 b)"

definition ref_path :: onion_path where
  "ref_path = \<lparr>hops = [ref_hop 5, ref_hop 9], remote = Remote_SOGS
     \<lparr>sogs_protocol = sogs_http, sogs_onion = replicate 32 4, sogs_hostname = str ''sogs'', sogs_port = 80\<rparr>\<rparr>"

definition ref_path_keys :: "x25519_keypair list" where
  "ref_path_keys = [ref_hop_keys 5, ref_hop_keys 9]"

definition ref_control :: bytes where
  "ref_control = jenc (remote_ControlData ref_json (remote ref_path))"

lemma ref_sendable: "sendable ref_libs ref_path ref_path_keys (str ''hi'') ref_control"
proof -
  have "honest_keys ref_sodium (ref_hop b) (ref_hop_keys b)" for b
    by (simp add: honest_keys_def ref_hop_def ref_hop_keys_def ref_sodium_def)
  moreover have "js_dump ref_json (remote_ControlData ref_json (remote ref_path)) = Some ref_control"
    by (simp add: ref_control_def ref_path_def sogs_ControlData_def ref_json_def ascii_def str_def)
  moreover have "length ref_control \<le> 200"
    by (simp add: ref_control_def ref_path_def sogs_ControlData_def ref_json_def str_def)
  ultimately show ?thesis
    by (simp add: sendable_def ref_path_def ref_path_keys_def ref_libs_simps ref_hop_def)
qed

text \<open>
  C1. An onion made for a path of any length, by either maker, is delivered: making it succeeds;
  when the nodes of the path, holding the secret keys of their published onion keys, take it apart
  one after the other with the junk parser, each reads the identity of the next hop, in the order
  of the path, and the last one holds the framed payload followed by the control data of the
  remote, unchanged.
\<close>

theorem onion_delivered:
  assumes "libs_ok L" and "sendable L p keys payload control"
    and "maker = OnionMaker_aesgcm \<or> maker = OnionMaker_xchacha20"
  shows "\<exists>om r' junk. maker_MakeOnion L maker payload p r = (Inr om, r') \<and> path om = p \<and>
    peel_path L keys (ciphertext om)
      = Inr (map (\<lambda>n. key_hex (lib_ox L) (identity n)) (tl (hops p)), junk) \<and>
    junk_payload junk = encode_size (lib_ox L) (length payload) @ payload @ control"
proof -
  obtain t where t: "maker = OnionMaker_Impl t" "t = aes_gcm \<or> t = xchacha20"
    using assms(3) by (auto simp: OnionMaker_aesgcm_def OnionMaker_xchacha20_def)
  from MakeOnion_arrives [OF assms(1) t(2) assms(2)] show ?thesis
    unfolding onion_arrives_def frame_fold by (fastforce simp: t(1))
qed

theorem onion_delivered_witness:
  "\<exists>om r' junk. maker_MakeOnion ref_libs OnionMaker_xchacha20 (str ''hi'') ref_path 0 = (Inr om, r') \<and>
    path om = ref_path \<and>
    peel_path ref_libs ref_path_keys (ciphertext om)
      = Inr (map (\<lambda>n. key_hex (lib_ox ref_libs) (identity n)) (tl (hops ref_path)), junk) \<and>
    junk_payload junk = encode_size (lib_ox ref_libs) (length (str ''hi'')) @ str ''hi'' @ ref_control"
  by (rule onion_delivered [OF ref_libs_ok ref_sendable]) simp

text \<open>
  C2. The reply comes back: the reply the last hop makes with the \<open>transformReply\<close> it got from the
  junk parser is what \<open>maybeDecryptResponse\<close> of the request returns for it, sent raw, or as any
  base64 text of it that is not by accident a ciphertext itself.
\<close>

theorem onion_reply_returns:
  assumes "libs_ok L" and "sendable L p keys payload control" and "t = aes_gcm \<or> t = xchacha20"
    and "MakeOnion L t payload p r = (Inr om, r')"
    and "peel_path L keys (ciphertext om) = Inr (dests, junk)" and "message_fits t (length reply)"
  shows "\<exists>d s'. transformReply junk reply s = (Inr d, s') \<and>
    maybeDecryptResponse om d = Inr (Some reply) \<and>
    (\<forall>body. ox_is_base64 (lib_ox L) body \<and> ox_from_base64 (lib_ox L) body = d \<and>
       length body < 2 ^ 31 \<and>
       (\<forall>m. decrypt (lib_na L) (lib_evp L) (reply_channel L r) t body (onion (last (hops p))) \<noteq> Inr m) \<longrightarrow>
       maybeDecryptResponse om body = Inr (Some reply))"
proof -
  let ?dec = "decrypt (lib_na L) (lib_evp L) (reply_channel L r) t"
  let ?pk = "onion (last (hops p))"
  obtain a A where arr: "onion_arrives L t p keys payload control om a A junk"
      and chan: "client_channel a A = reply_channel L r"
    using MakeOnion_arrives [OF assms(1,3,2), of r] assms(4,5) by (auto simp: onion_arrives_def)
  then obtain d s' where d: "transformReply junk reply s = (Inr d, s')" "?dec d ?pk = Inr reply"
    using arrived_reply [OF assms(1,6) arr sendable_last [OF assms(2)]] by metis
  have om: "maybeDecryptResponse om = decrypt_response L t (reply_channel L r) ?pk"
    using arr chan by (simp add: onion_arrives_def)
  have body: "maybeDecryptResponse om body = Inr (Some reply)"
    if b64: "ox_is_base64 (lib_ox L) body" "ox_from_base64 (lib_ox L) body = d" "length body < 2 ^ 31"
      and no: "\<forall>m. ?dec body ?pk \<noteq> Inr m" for body
  proof -
    obtain e where e: "?dec body ?pk = Inl e" using no by (cases "?dec body ?pk") auto
    have "is_defined (?dec body ?pk)"
      by (rule decrypt_defined) (use assms(1,3) b64(3) libs_okD in auto)
    with e have "catchable e" by simp
    with e show ?thesis unfolding om by (rule decrypt_response_base64) (simp_all add: b64(1,2) d(2))
  qed
  show ?thesis
    using d body by (auto simp: om decrypt_response_hit)
qed

theorem onion_reply_returns_witness:
  "\<exists>om r' dests junk d s'. MakeOnion ref_libs aes_gcm (str ''hi'') ref_path 0 = (Inr om, r') \<and>
    peel_path ref_libs ref_path_keys (ciphertext om) = Inr (dests, junk) \<and>
    transformReply junk (str ''yes'') 3 = (Inr d, s') \<and>
    maybeDecryptResponse om d = Inr (Some (str ''yes''))"
proof -
  have "\<exists>om r' dests junk. MakeOnion ref_libs aes_gcm (str ''hi'') ref_path 0 = (Inr om, r') \<and>
      peel_path ref_libs ref_path_keys (ciphertext om) = Inr (dests, junk)"
    using MakeOnion_arrives [OF ref_libs_ok _ ref_sendable, of aes_gcm 0]
    by (auto simp: onion_arrives_def)
  then obtain om r' dests junk where o: "MakeOnion ref_libs aes_gcm (str ''hi'') ref_path 0 = (Inr om, r')"
      "peel_path ref_libs ref_path_keys (ciphertext om) = Inr (dests, junk)"
    by blast
  have "message_fits aes_gcm (length (str ''yes''))" by simp
  from onion_reply_returns [OF ref_libs_ok ref_sendable _ o this, of 3] o show ?thesis by auto
qed

text \<open>
  C12. Whatever the network answers, \<open>maybeDecryptResponse\<close> returns: neither its first attempt nor
  the one on decoded base64 reads out of bounds, and every exception becomes \<open>nullopt\<close>.
\<close>

theorem onion_response_total:
  assumes "libs_ok L" and "maker_MakeOnion L maker payload p r = (Inr om, r')"
    and "maker = OnionMaker_aesgcm \<or> maker = OnionMaker_xchacha20" and "length body < 2 ^ 31"
  shows "\<exists>answer. maybeDecryptResponse om body = Inr answer"
proof -
  obtain t where t: "maker = OnionMaker_Impl t" "t \<noteq> aes_cbc"
    using assms(3) by (auto simp: OnionMaker_aesgcm_def OnionMaker_xchacha20_def)
  obtain c k where "maybeDecryptResponse om = decrypt_response L t c k"
    using assms(2) unfolding t(1) maker_MakeOnion.simps by (rule MakeOnion_response)
  then show ?thesis using decrypt_response_total [OF assms(1) t(2) assms(4)] by simp
qed

theorem onion_response_total_witness:
  "\<exists>om r' answer. maker_MakeOnion ref_libs OnionMaker_aesgcm (str ''hi'') ref_path 0 = (Inr om, r') \<and>
    maybeDecryptResponse om [1, 2, 3] = Inr answer"
proof -
  obtain om r' where "maker_MakeOnion ref_libs OnionMaker_aesgcm (str ''hi'') ref_path 0 = (Inr om, r')"
    using MakeOnion_arrives [OF ref_libs_ok _ ref_sendable, of aes_gcm 0]
    by (auto simp: OnionMaker_aesgcm_def)
  then show ?thesis using onion_response_total [OF ref_libs_ok, of OnionMaker_aesgcm _ _ _ om _ "[1, 2, 3]"]
    by auto
qed

text \<open>
  A path without hops is not refused: after the control data is serialised and a keypair
  drawn, the maker takes \<open>back()\<close> of an empty vector.
\<close>

theorem MakeOnion_empty_path:
  assumes "hops p = []" and "js_dump (lib_js L) (remote_ControlData (lib_js L) (remote p)) = Some control"
  shows "fst (MakeOnion L t payload p r) = Inl (Undefined ''back() of an empty vector'')"
  using assms
  by (simp add: MakeOnion_def json_dump_def crypto_box_keypair_def lift_def sbind_def split: prod.splits)

theorem MakeOnion_empty_path_witness:
  "fst (MakeOnion ref_libs aes_gcm [] (ref_path\<lparr>hops := []\<rparr>) 0)
    = Inl (Undefined ''back() of an empty vector'')"
  by (rule MakeOnion_empty_path [of _ _ ref_control])
    (use ref_sendable in \<open>simp_all add: sendable_def ref_path_def\<close>)

text \<open>
  The length prefix is 32 bits wide: for a payload of \<open>2\<^sup>3\<^sup>2\<close> bytes or more it wraps, and the
  reader of the frame sees the size modulo \<open>2\<^sup>3\<^sup>2\<close>; below that bound it is exact.
\<close>

theorem encode_size_wraps:
  assumes "endian_ok X"
  shows "\<exists>sz. decode_size X (encode_size X n @ rest) = Inr sz \<and> unat sz = n mod 2 ^ 32 \<and>
    (unat sz = n \<longleftrightarrow> n < 2 ^ 32)"
  using size_prefix.get_put [OF assms, of n rest]
  by (auto simp: unat_narrow_u32)

theorem encode_size_wraps_witness:
  "\<exists>sz. decode_size ref_oxenc (encode_size ref_oxenc (2 ^ 32 + 5) @ []) = Inr sz \<and>
    unat sz = (2 ^ 32 + 5) mod 2 ^ 32 \<and> (unat sz = 2 ^ 32 + 5 \<longleftrightarrow> (2 :: nat) ^ 32 + 5 < 2 ^ 32)"
  by (rule encode_size_wraps) (rule ref_oxenc_ok)

subsection \<open>From the node list to the reply\<close>

text \<open>
  C19. A node list as the fetcher parses it, stored in a selector whose set of edges is not full,
  gives paths that visit no node twice: the parser's one-entry-per-identity invariant is what the
  selection needs.
\<close>

theorem fetched_nodes_distinct_hops:
  assumes "ParseNodeList X J place mem data = Inr nodes" and "nodes \<noteq> []" and "place_ok place"
    and "place_ok place'" and "draw_ok draw" and "length (edges s) < MaxEdges"
  shows "\<exists>p s' g'. MaybeSelectHopsTo place' draw rem (StoreNodeList nodes s) g = (Inr (Some p), s', g') \<and>
    distinct (map identity (hops p)) \<and> length (hops p) = min 4 (length nodes) \<and>
    set (hops p) \<subseteq> snd ` set nodes"
proof -
  let ?s = "StoreNodeList nodes s"
  have st: "snodelist ?s = nodes" "edges ?s = edges s" by (simp_all add: StoreNodeList_def)
  then obtain x xs g' where smp: "std_sample draw (snodelist ?s) DefaultHopLength g = (x # xs, g')"
      and sub: "subseq (x # xs) nodes" and len: "length (x # xs) = min 4 (length nodes)"
    using sampled_nonempty [OF assms(5), of ?s] assms(2) by metis
  have "distinct (map (identity \<circ> snd) (x # xs))"
    using subseq_keeps_distinct [OF subseq_map [OF sub] ParseNodeList_keyed(3) [OF assms(1,3)]] .
  moreover have "set (x # xs) \<subseteq> set nodes" using sub by (rule subseq_subset)
  ultimately show ?thesis
    using MaybeSelect_few_edges [OF smp, of place' rem] assms(6) st(2) len by auto
qed

theorem fetched_nodes_distinct_hops_witness:
  "\<exists>p s' g'. MaybeSelectHopsTo place_front (prng_draw ref_sodium) (Remote_SNode ref_node)
      (StoreNodeList [(identity ref_node, ref_node)] new_PathSelection) 0 = (Inr (Some p), s', g') \<and>
    distinct (map identity (hops p)) \<and> length (hops p) = min 4 (length [(identity ref_node, ref_node)]) \<and>
    set (hops p) \<subseteq> snd ` set [(identity ref_node, ref_node)]"
  by (rule fetched_nodes_distinct_hops [OF ref_list_parse])
    (simp_all add: place_ok_examples prng_draw_ok new_PathSelection_def MaxEdges_def)

text \<open>
  C3. A whole request: make the onion, hand it to the transport, which has or gets a connection
  \<open>c\<close> to the first hop. What goes over that connection is peeled by the hops of the path down to the
  payload and the remote's control data; when the last hop's encrypted answer comes back as the
  second part of the reply, the handler wrapped with \<open>MakeDecrypter\<close> is called with that answer.
\<close>

theorem request_and_reply:
  assumes "libs_ok L" and "sendable L p keys payload control"
    and "maker = OnionMaker_aesgcm \<or> maker = OnionMaker_xchacha20"
    and "ObtainConnectionTo (lib_ox L) M place (hd (hops p)) s w = (Inr (Some c), s2, w2)"
    and "length answer + 1 < 2 ^ 31"
  shows "\<exists>om r' body dests junk d q'. maker_MakeOnion L maker payload p r = (Inr om, r') \<and>
    SendPayload (lib_ox L) M place om s w
      = (Inr (Requested c (str ''sn.onion_request'') body onion_request_reply), s2, w2) \<and>
    peel_path L keys body = Inr (dests, junk) \<and>
    junk_payload junk = encode_size (lib_ox L) (length payload) @ payload @ control \<and>
    transformReply junk answer q = (Inr d, q') \<and>
    ebind (onion_request_reply True [status, d]) (\<lambda>got. case got of
        Some ct \<Rightarrow> MakeDecrypter om handler ct
      | None \<Rightarrow> handler None) = handler (Some answer)"
proof -
  let ?X = "lib_ox L"
  obtain om r' dests junk where om: "maker_MakeOnion L maker payload p r = (Inr om, r')"
      and edge: "path om = p" "hops p \<noteq> []"
      and peel: "peel_path L keys (ciphertext om) = Inr (dests, junk)"
      and load: "junk_payload junk = encode_size ?X (length payload) @ payload @ control"
      and reply: "\<And>q. \<exists>d q'. transformReply junk answer q = (Inr d, q')"
      and handled: "\<And>q d q' st. transformReply junk answer q = (Inr d, q') \<Longrightarrow>
        omq_carries ?X M place (hd (hops p)) (ciphertext om) d st \<Longrightarrow>
        ebind (fst (omq_deliver ?X M place om st)) (response_handler om handler (handler None))
        = handler (Some answer)"
    by (rule omq.request_answered [where X = "lib_ox L" and M = M and place = place and handler = handler and
        unanswered = "handler None", OF assms(1-3,5), of r]) blast
  obtain d q' where d: "transformReply junk answer q = (Inr d, q')" using reply by blast
  have "Edge (path om) = Inr (hd (hops p))" using edge by (cases "hops p") simp_all
  then have send: "SendPayload ?X M place om s w
      = (Inr (Requested c (str ''sn.onion_request'') (ciphertext om) onion_request_reply), s2, w2)"
    using assms(4) by (simp add: SendPayload_def)
  let ?st = "(s, w, \<lambda>c m body. (True, [status, d]))"
  have "omq_carries ?X M place (hd (hops p)) (ciphertext om) d ?st"
    using assms(4) by (simp add: omq_carries_def)
  from handled [OF d this] have "ebind (onion_request_reply True [status, d]) (\<lambda>got. case got of
      Some ct \<Rightarrow> MakeDecrypter om handler ct | None \<Rightarrow> handler None) = handler (Some answer)"
    by (simp add: omq_deliver_def send response_handler_def [abs_def])
  with om send peel load d show ?thesis by blast
qed

theorem request_and_reply_witness:
  "\<exists>om r' body dests junk d q'. maker_MakeOnion ref_libs OnionMaker_xchacha20 (str ''hi'') ref_path 0 = (Inr om, r') \<and>
    SendPayload (lib_ox ref_libs) ref_mq place_front om new_Transport 4
      = (Inr (Requested 4 (str ''sn.onion_request'') body onion_request_reply),
         \<lparr>connections = [(identity (ref_hop 5), 4)]\<rparr>, 5) \<and>
    peel_path ref_libs ref_path_keys body = Inr (dests, junk) \<and>
    junk_payload junk = encode_size (lib_ox ref_libs) (length (str ''hi'')) @ str ''hi'' @ ref_control \<and>
    transformReply junk (str ''yes'') 8 = (Inr d, q') \<and>
    ebind (onion_request_reply True [str ''200'', d]) (\<lambda>got. case got of
        Some ct \<Rightarrow> MakeDecrypter om Inr ct
      | None \<Rightarrow> Inr None) = Inr (Some (str ''yes''))"
proof (rule request_and_reply [OF ref_libs_ok ref_sendable])
  show "ObtainConnectionTo (lib_ox ref_libs) ref_mq place_front (hd (hops ref_path)) new_Transport 4
      = (Inr (Some 4), \<lparr>connections = [(identity (ref_hop 5), 4)]\<rparr>, 5)"
    by (simp add: ObtainConnectionTo_def new_Transport_def parse_address_def ref_mq_def DirectAddr_def
        str_def umap_emplace_def place_front_def ref_path_def)
qed simp_all

text \<open>
  C13. Selecting and sending from several threads: every path any thread gets out of a selector fed
  with nodes whose keys are honest, whatever the schedule and whatever else is called, makes an
  onion that its hops take apart, in order, down to the payload.
\<close>

theorem threads_onion_delivered:
  assumes "selector_threads place draw (new_machine (s, g)) tr m" and "place_ok place" and "draw_ok draw"
    and "knows_only (\<lambda>n. wt_snode n \<and> honest_keys (lib_na L) n (keys n)) s"
    and "\<forall>i nodes. Invoke i (Op_StoreNodeList nodes) \<in> set tr \<longrightarrow>
      (\<forall>(k, n) \<in> set nodes. wt_snode n \<and> honest_keys (lib_na L) n (keys n))"
    and "Return i opr (Some_Path (Some p)) \<in> set tr"
    and "libs_ok L" and "maker = OnionMaker_aesgcm \<or> maker = OnionMaker_xchacha20"
    and "js_dump (lib_js L) (remote_ControlData (lib_js L) (remote p)) = Some control"
    and "length payload + length control + 5500 < 2 ^ 31"
  shows "opr = Op_MaybeSelectHopsTo (remote p) \<and>
    (\<exists>om r' junk. maker_MakeOnion L maker payload p r = (Inr om, r') \<and>
      peel_path L (map keys (hops p)) (ciphertext om)
        = Inr (map (\<lambda>n. key_hex (lib_ox L) (identity n)) (tl (hops p)), junk) \<and>
      junk_payload junk = encode_size (lib_ox L) (length payload) @ payload @ control)"
proof -
  note path = returned_path [OF assms(1-6)]
  have send: "sendable L p (map keys (hops p)) payload control"
    by (rule honest_path_sendable [OF path(4,2,3) assms(9,10)])
  obtain t where t: "maker = OnionMaker_Impl t" "t = aes_gcm \<or> t = xchacha20"
    using assms(8) by (auto simp: OnionMaker_aesgcm_def OnionMaker_xchacha20_def)
  from MakeOnion_arrives [OF assms(7) t(2) send] path(1) show ?thesis
    unfolding onion_arrives_def frame_fold by (fastforce simp: t(1))
qed

theorem threads_onion_delivered_witness:
  "\<exists>tr m p om r' junk. selector_threads place_front (prng_draw ref_sodium)
      (new_machine (\<lparr>snodelist = [(identity ref_node, ref_node)], edges = []\<rparr>, 0)) tr m \<and>
    maker_MakeOnion ref_libs OnionMaker_aesgcm (str ''hi'') p 0 = (Inr om, r') \<and>
    peel_path ref_libs (map (\<lambda>n. ref_node_keys) (hops p)) (ciphertext om)
      = Inr (map (\<lambda>n. key_hex (lib_ox ref_libs) (identity n)) (tl (hops p)), junk)"
proof -
  let ?d = "prng_draw ref_sodium" and ?sel = "Op_MaybeSelectHopsTo (Remote_SNode ref_node)"
  let ?s = "\<lparr>snodelist = [(identity ref_node, ref_node)], edges = []\<rparr>"
  let ?Q = "\<lambda>n. wt_snode n \<and> honest_keys (lib_na ref_libs) n ref_node_keys"
  obtain r c where r: "selector_spec place_front ?d ?sel (?s, 0) r c"
      and run: "selector_threads place_front ?d (new_machine (?s, 0))
        [Invoke 3 ?sel, Commit 3 ?sel r, Return 3 ?sel r] ((new_machine (?s, 0))\<lparr>shared := c\<rparr>)"
    using selector.solo_call [OF prng_draw_ok, of ?sel "Sampling_Hops (Remote_SNode ref_node)"
        "new_machine (?s, 0)" 3 place_front ref_sodium]
    by (auto simp: new_machine_def)
  then obtain q where q: "r = Some_Path q" "MaybeSelectHopsTo place_front ?d (Remote_SNode ref_node) ?s 0 = (Inr q, c)"
    by auto
  then have "q \<noteq> None" using MaybeSelect_never_None by metis
  then obtain p where p: "q = Some p" by auto
  have known: "knows_only ?Q ?s" using ref_client_facts(1) ref_node_honest by (simp add: knows_only_def)
  have ret: "Return 3 ?sel (Some_Path (Some p)) \<in> set [Invoke 3 ?sel, Commit 3 ?sel r, Return 3 ?sel r]"
    using q(1) p by simp
  have "?sel = Op_MaybeSelectHopsTo (remote p)"
    by (rule returned_path(1) [OF run place_ok_examples(1) prng_draw_ok known _ ret]) simp
  then have rem: "remote p = Remote_SNode ref_node" by simp
  have "length (str ''hi'') + length (jenc (snode_ControlData ref_json ref_node)) + 5500 < 2 ^ 31"
    by (simp add: ref_json_def snode_ControlData_def str_def)
  from threads_onion_delivered [OF run place_ok_examples(1) prng_draw_ok known _ ret ref_libs_ok _ _ this, of OnionMaker_aesgcm 0]
  show ?thesis
    using run ref_client_facts(2) rem by auto
qed

text \<open>
  C28. The price of an onion: at most 1100 bytes a hop over the payload and the remote's control data,
  whatever the path and the type, so a request that fits is never too long on the wire.
\<close>

theorem onion_size_bounded:
  assumes "libs_ok L" and "sendable L p keys payload control"
    and "maker = OnionMaker_aesgcm \<or> maker = OnionMaker_xchacha20"
    and "maker_MakeOnion L maker payload p r = (Inr om, r')"
  shows "length (ciphertext om) \<le> length payload + length control + 1100 * length (hops p) \<and>
    length (ciphertext om) < 2 ^ 31"
proof -
  obtain t where t: "maker = OnionMaker_Impl t" "t = aes_gcm \<or> t = xchacha20"
    using assms(3) by (auto simp: OnionMaker_aesgcm_def OnionMaker_xchacha20_def)
  from MakeOnion_arrives [OF assms(1) t(2) assms(2), of r] assms(4)
  have "length (ciphertext om) \<le> length payload + length control + 1100 * length (hops p)"
    by (auto simp: t(1) onion_arrives_def)
  then show ?thesis using assms(2) by (simp add: sendable_def)
qed

theorem onion_size_bounded_witness:
  "\<exists>om r'. maker_MakeOnion ref_libs OnionMaker_xchacha20 (str ''hi'') ref_path 0 = (Inr om, r') \<and>
    length (ciphertext om) \<le> 2 + length ref_control + 1100 * 2"
proof -
  obtain om r' where om: "maker_MakeOnion ref_libs OnionMaker_xchacha20 (str ''hi'') ref_path 0 = (Inr om, r')"
    using MakeOnion_arrives [OF ref_libs_ok _ ref_sendable, of xchacha20 0]
    by (auto simp: OnionMaker_xchacha20_def)
  from onion_size_bounded [OF ref_libs_ok ref_sendable _ this] show ?thesis
    using om by (simp add: str_def ref_path_def)
qed

end
